theory Spec2Isabelle
  imports Complex_Main "HOL-Library.Word"
begin

section \<open>Machine values\<close>

text \<open>
  The C++ type \<open>float\<close>.  The special values of IEEE arithmetic are kept apart, because the
  comparisons in the two constructors behave differently on them: every comparison with a NaN
  is false, and the infinities are the ends of the order.  A finite value is idealised as the real
  number it denotes: rounding, overflow to an infinity and the sign of zero are not modelled.
\<close>

datatype cfloat = FNaN | FNegInf | FNum real | FPosInf

text \<open>The operators \<open><\<close>, \<open>>\<close>, \<open><=\<close> and \<open>>=\<close> of C++ on \<open>float\<close>.\<close>

fun flt :: "cfloat \<Rightarrow> cfloat \<Rightarrow> bool" where
  "flt FNaN _ = False"
| "flt _ FNaN = False"
| "flt FNegInf FNegInf = False"
| "flt FNegInf _ = True"
| "flt (FNum a) (FNum b) = (a < b)"
| "flt (FNum a) FPosInf = True"
| "flt (FNum a) FNegInf = False"
| "flt FPosInf _ = False"

definition fgt :: "cfloat \<Rightarrow> cfloat \<Rightarrow> bool" where
  "fgt a b = flt b a"

definition fle :: "cfloat \<Rightarrow> cfloat \<Rightarrow> bool" where
  "fle a b = (a \<noteq> FNaN \<and> b \<noteq> FNaN \<and> \<not> flt b a)"

definition fge :: "cfloat \<Rightarrow> cfloat \<Rightarrow> bool" where
  "fge a b = fle b a"

text \<open>
  Multiplication and division of \<open>float\<close>, \<open>floorf\<close> and the conversion of an
  \<open>unsigned int\<close> to \<open>float\<close>.  The special cases are those of IEEE arithmetic, with
  every zero taken as positive.
\<close>

fun fmul :: "cfloat \<Rightarrow> cfloat \<Rightarrow> cfloat" where
  "fmul FNaN _ = FNaN"
| "fmul _ FNaN = FNaN"
| "fmul (FNum a) (FNum b) = FNum (a * b)"
| "fmul (FNum a) FPosInf = (if a = 0 then FNaN else if 0 < a then FPosInf else FNegInf)"
| "fmul (FNum a) FNegInf = (if a = 0 then FNaN else if 0 < a then FNegInf else FPosInf)"
| "fmul FPosInf (FNum b) = (if b = 0 then FNaN else if 0 < b then FPosInf else FNegInf)"
| "fmul FNegInf (FNum b) = (if b = 0 then FNaN else if 0 < b then FNegInf else FPosInf)"
| "fmul FPosInf FPosInf = FPosInf"
| "fmul FPosInf FNegInf = FNegInf"
| "fmul FNegInf FPosInf = FNegInf"
| "fmul FNegInf FNegInf = FPosInf"

fun fdiv :: "cfloat \<Rightarrow> cfloat \<Rightarrow> cfloat" where
  "fdiv FNaN _ = FNaN"
| "fdiv _ FNaN = FNaN"
| "fdiv (FNum a) (FNum b) =
     (if b \<noteq> 0 then FNum (a / b)
      else if a = 0 then FNaN else if 0 < a then FPosInf else FNegInf)"
| "fdiv (FNum a) FPosInf = FNum 0"
| "fdiv (FNum a) FNegInf = FNum 0"
| "fdiv FPosInf (FNum b) = (if 0 \<le> b then FPosInf else FNegInf)"
| "fdiv FNegInf (FNum b) = (if 0 \<le> b then FNegInf else FPosInf)"
| "fdiv FPosInf _ = FNaN"
| "fdiv FNegInf _ = FNaN"

fun floorf :: "cfloat \<Rightarrow> cfloat" where
  "floorf (FNum a) = FNum (of_int \<lfloor>a\<rfloor>)"
| "floorf x = x"

text \<open>The C++ type \<open>unsigned int\<close>, and its conversion \<open>float(n)\<close>.\<close>

type_synonym uint = "32 word"

definition float_of_uint :: "uint \<Rightarrow> cfloat" where
  "float_of_uint n = FNum (real (unat n))"

text \<open>
  The instruction \<open>_mm_cvtt_ss2si\<close>, whose \<open>int\<close> result the code stores in an
  \<open>unsigned int\<close>: the value truncated towards zero when that fits a signed 32-bit
  integer, the bit pattern \<open>0x80000000\<close> otherwise.
\<close>

definition cvtt_ss2si :: "cfloat \<Rightarrow> uint" where
  "cvtt_ss2si x =
     (case x of
        FNum a \<Rightarrow>
          (let n = (if 0 \<le> a then \<lfloor>a\<rfloor> else \<lceil>a\<rceil>)
           in if - (2 ^ 31) \<le> n \<and> n < 2 ^ 31 then word_of_int n else 0x80000000)
      | _ \<Rightarrow> 0x80000000)"

text \<open>
  A \<open>std::shared_ptr\<close> to an array: \<open>None\<close> is the null pointer that a default-constructed
  \<open>shared_ptr\<close> holds, \<open>Some a\<close> points to the array stored at address \<open>a\<close>.
\<close>

type_synonym addr = nat
type_synonym shared_ptr = "addr option"

text \<open>
  The exceptions thrown by the constructors, each with its message; and the access to an
  array past its end, which C++ leaves undefined.
\<close>

datatype error = invalid_argument string | out_of_bounds

section \<open>Steinhardt.h: the class \<open>Steinhardt\<close>\<close>

text \<open>
  The member variables of the class, in the order of their declaration.  The flag
  \<open>m_reduce\<close>, the thread-specific arrays \<open>m_Qlm_local\<close> and \<open>m_AveQlm_local\<close> and the vector
  \<open>m_wigner3jvalues\<close> are used by no function of the header and are left out.
\<close>

record steinhardt =
  m_Np :: uint
  m_rmax :: cfloat
  m_l :: uint
  m_rmin :: cfloat
  m_average :: bool
  m_norm :: bool
  m_Wl :: bool
  m_Qlmi :: shared_ptr
  m_Qlm :: shared_ptr
  m_Qli :: shared_ptr
  m_AveQlmi :: shared_ptr
  m_AveQlm :: shared_ptr
  m_QliAve :: shared_ptr
  m_QliNorm :: shared_ptr
  m_QliAveNorm :: shared_ptr
  m_Wli :: shared_ptr
  m_WliAve :: shared_ptr
  m_WliNorm :: shared_ptr
  m_WliAveNorm :: shared_ptr

text \<open>
  The member initialiser list of the constructor: the seven listed members take the
  arguments (and \<open>m_Np\<close> is 0), every \<open>shared_ptr\<close> member is default-constructed.
\<close>

definition Steinhardt_init ::
  "cfloat \<Rightarrow> uint \<Rightarrow> cfloat \<Rightarrow> bool \<Rightarrow> bool \<Rightarrow> bool \<Rightarrow> steinhardt" where
  "Steinhardt_init rmax l rmin average nrm Wl =
     \<lparr> m_Np = 0, m_rmax = rmax, m_l = l, m_rmin = rmin,
       m_average = average, m_norm = nrm, m_Wl = Wl,
       m_Qlmi = None, m_Qlm = None, m_Qli = None, m_AveQlmi = None, m_AveQlm = None,
       m_QliAve = None, m_QliNorm = None, m_QliAveNorm = None,
       m_Wli = None, m_WliAve = None, m_WliNorm = None, m_WliAveNorm = None \<rparr>"

text \<open>
  The constructor \<open>Steinhardt(rmax, l, rmin, average, norm, Wl)\<close>: the three checks of its
  body in their order, each throwing \<open>std::invalid_argument\<close>.
\<close>

definition Steinhardt ::
  "cfloat \<Rightarrow> uint \<Rightarrow> cfloat \<Rightarrow> bool \<Rightarrow> bool \<Rightarrow> bool \<Rightarrow> error + steinhardt" where
  "Steinhardt rmax l rmin average nrm Wl =
     (let s = Steinhardt_init rmax l rmin average nrm Wl in
      if flt (m_rmax s) (FNum 0) \<or> flt (m_rmin s) (FNum 0)
      then Inl (invalid_argument ''Steinhardt requires rmin and rmax must be positive.'')
      else if fge (m_rmin s) (m_rmax s)
      then Inl (invalid_argument ''Steinhardt requires rmin must be less than rmax.'')
      else if m_l s < 2
      then Inl (invalid_argument ''Steinhardt requires l must be two or greater.'')
      else Inr s)"

text \<open>\<open>getNP()\<close>, \<open>getQl()\<close>, \<open>getWl()\<close> and \<open>getUseWl()\<close>.\<close>

definition getNP :: "steinhardt \<Rightarrow> uint" where
  "getNP s = m_Np s"

definition getQl :: "steinhardt \<Rightarrow> shared_ptr" where
  "getQl s =
     (if m_average s \<and> m_norm s then m_QliAveNorm s
      else if m_average s then m_QliAve s
      else if m_norm s then m_QliNorm s
      else m_Qli s)"

definition getWl :: "steinhardt \<Rightarrow> shared_ptr" where
  "getWl s =
     (if m_average s \<and> m_norm s then m_WliAveNorm s
      else if m_average s then m_WliAve s
      else if m_norm s then m_WliNorm s
      else m_Wli s)"

definition getUseWl :: "steinhardt \<Rightarrow> bool" where
  "getUseWl s = m_Wl s"

text \<open>
  What a caller does with a returned \<open>shared_ptr\<close>: the arrays live in a store, and
  \<open>p.get()[i]\<close> reads or writes the array that \<open>p\<close> points to.  Dereferencing a null
  or dangling pointer and an index past the end of the array are undefined in C++; they
  are the value \<open>None\<close> here.
\<close>

type_synonym 'a store = "addr \<Rightarrow> 'a list option"

definition read_array :: "'a store \<Rightarrow> shared_ptr \<Rightarrow> 'a list option" where
  "read_array h p = (case p of None \<Rightarrow> None | Some a \<Rightarrow> h a)"

definition write_elem :: "'a store \<Rightarrow> shared_ptr \<Rightarrow> nat \<Rightarrow> 'a \<Rightarrow> 'a store option" where
  "write_elem h p i v =
     (case p of
        None \<Rightarrow> None
      | Some a \<Rightarrow>
          (case h a of
             None \<Rightarrow> None
           | Some xs \<Rightarrow> if i < length xs then Some (h(a \<mapsto> xs[i := v])) else None))"

text \<open>
  Modelled from the spec: the bodies of \<open>reallocateArrays\<close> and \<open>compute\<close>, which the
  header only declares (Steinhardt.cc is missing).  The spec has the buffers allocated
  on the first \<open>compute\<close> call or when the particle count changes, the base step run on
  every call, the average, normalisation and third-order steps run only when their flag
  was set at construction, and only the enabled buffers stored; the header says of
  \<open>reallocateArrays\<close> that it reallocates only the necessary arrays.  Only the pointers
  are modelled here: \<open>a\<close> is the first of twelve unused addresses, and the arguments of
  \<open>compute\<close> other than the particle count, which bear on the contents only, are left
  out.
\<close>

definition reallocateArrays :: "uint \<Rightarrow> addr \<Rightarrow> steinhardt \<Rightarrow> steinhardt" where
  "reallocateArrays Np a s =
     s\<lparr> m_Qlmi := Some a,
        m_Qlm := Some (a + 1),
        m_Qli := Some (a + 2),
        m_AveQlmi := (if m_average s then Some (a + 3) else m_AveQlmi s),
        m_AveQlm := (if m_average s then Some (a + 4) else m_AveQlm s),
        m_QliAve := (if m_average s then Some (a + 5) else m_QliAve s),
        m_QliNorm := (if m_norm s then Some (a + 6) else m_QliNorm s),
        m_QliAveNorm := (if m_average s \<and> m_norm s then Some (a + 7) else m_QliAveNorm s),
        m_Wli := (if m_Wl s then Some (a + 8) else m_Wli s),
        m_WliAve := (if m_Wl s \<and> m_average s then Some (a + 9) else m_WliAve s),
        m_WliNorm := (if m_Wl s \<and> m_norm s then Some (a + 10) else m_WliNorm s),
        m_WliAveNorm :=
          (if m_Wl s \<and> m_average s \<and> m_norm s then Some (a + 11) else m_WliAveNorm s) \<rparr>"

definition compute :: "uint \<Rightarrow> addr \<Rightarrow> steinhardt \<Rightarrow> steinhardt" where
  "compute Np a s =
     (let s' = (if m_Qli s = None \<or> Np \<noteq> m_Np s then reallocateArrays Np a s else s)
      in s'\<lparr> m_Np := Np \<rparr>)"

text \<open>
  Modelled from the spec: a sequence of \<open>compute\<close> calls on one instance, each with its
  particle count and the addresses it may allocate (\<open>compute\<close> is the sole operation of
  the engine besides the accessors).
\<close>

fun computes :: "(uint \<times> addr) list \<Rightarrow> steinhardt \<Rightarrow> steinhardt" where
  "computes [] s = s"
| "computes ((Np, a) # calls) s = computes calls (compute Np a s)"

section \<open>The base order parameter\<close>

text \<open>
  Modelled from the spec: the bodies of \<open>baseCompute\<close>, \<open>reduce\<close> and \<open>computeWl\<close>, which the
  header only declares (Steinhardt.cc is missing), after sections 4.2 to 4.4 of the spec
  and the formulas in the comment of the class.  The numbers are real and complex
  numbers where the code has \<open>float\<close> and \<open>complex<float>\<close>.  The spherical harmonics
  (\<open>computeYlm\<close>, from a library that is not part of the repository) and the table of
  Wigner 3-j coefficients are parameters: \<open>Ylm theta phi\<close> is the sequence of the values
  for \<open>m = -l..l\<close>, \<open>w3j m1 m2\<close> the coefficient for \<open>(m1, m2, -m1-m2)\<close>.
\<close>

text \<open>
  Modelled from the spec: a bond of a reference particle, as the neighbour list yields
  it (section 3): the neighbour, the length of the displacement and its polar and
  azimuthal angles.
\<close>

record bond =
  bond_j :: nat
  bond_r :: real
  bond_theta :: real
  bond_phi :: real

type_synonym harmonics = "real \<Rightarrow> real \<Rightarrow> complex list"

text \<open>
  Modelled from the spec: the accumulation buffer of a worker (section 4.2), a row of
  \<open>2l+1\<close> sums and a bond count for each particle.
\<close>

type_synonym qlm_buffer = "complex list list \<times> nat list"

definition empty_buffer :: "nat \<Rightarrow> nat \<Rightarrow> qlm_buffer" where
  "empty_buffer l Np = (replicate Np (replicate (2 * l + 1) 0), replicate Np 0)"

text \<open>
  Modelled from the spec: the bonds that count are those with a length in
  \<open>[rmin, rmax)\<close>.
\<close>

definition in_shell :: "real \<Rightarrow> real \<Rightarrow> bond \<Rightarrow> bool" where
  "in_shell rmin rmax b = (rmin \<le> bond_r b \<and> bond_r b < rmax)"

text \<open>
  Modelled from the spec: the bond accumulator (section 4.2).  For a bond of particle \<open>i\<close> in the shell, the
  harmonics of its angles are added to row \<open>i\<close> and the bond counter of \<open>i\<close> goes up by
  one.  A worker runs through the bonds of each of its particles, starting from a
  zeroed buffer.
\<close>

definition accumulate_bond ::
  "harmonics \<Rightarrow> real \<Rightarrow> real \<Rightarrow> nat \<Rightarrow> bond \<Rightarrow> qlm_buffer \<Rightarrow> qlm_buffer" where
  "accumulate_bond Ylm rmin rmax i b buf =
     (if in_shell rmin rmax b
      then ((fst buf)[i := map2 (+) (fst buf ! i) (Ylm (bond_theta b) (bond_phi b))],
            (snd buf)[i := snd buf ! i + 1])
      else buf)"

definition accumulate_particle ::
  "harmonics \<Rightarrow> real \<Rightarrow> real \<Rightarrow> (nat \<Rightarrow> bond list) \<Rightarrow> nat \<Rightarrow> qlm_buffer \<Rightarrow> qlm_buffer" where
  "accumulate_particle Ylm rmin rmax nlist i buf =
     fold (accumulate_bond Ylm rmin rmax i) (nlist i) buf"

definition BondAccumulator ::
  "harmonics \<Rightarrow> real \<Rightarrow> real \<Rightarrow> nat \<Rightarrow> nat \<Rightarrow> (nat \<Rightarrow> bond list) \<Rightarrow> nat list \<Rightarrow> qlm_buffer" where
  "BondAccumulator Ylm rmin rmax l Np nlist part =
     fold (accumulate_particle Ylm rmin rmax nlist) part (empty_buffer l Np)"

text \<open>
  Modelled from the spec: the reduction (section 4.3).  The rows of the workers are summed element by element,
  and the row of a particle is divided by its bond count over all workers.  A division
  is defined for a count other than zero only; the row of a particle with no bond is
  not divided but set to zero (the edge case of section 4.2).
\<close>

definition sum_rows :: "nat \<Rightarrow> complex list list \<Rightarrow> complex list" where
  "sum_rows n rows = fold (\<lambda>row acc. map2 (+) acc row) rows (replicate n 0)"

definition divide_by_count :: "complex \<Rightarrow> nat \<Rightarrow> complex option" where
  "divide_by_count z n = (if n = 0 then None else Some (z / of_nat n))"

definition average_row :: "complex list \<Rightarrow> nat \<Rightarrow> complex list option" where
  "average_row row n =
     (if n = 0 then Some (map (\<lambda>z. 0) row)
      else those (map (\<lambda>z. divide_by_count z n) row))"

definition reduce :: "nat \<Rightarrow> nat \<Rightarrow> qlm_buffer list \<Rightarrow> complex list option list" where
  "reduce l Np bufs =
     map (\<lambda>i. average_row (sum_rows (2 * l + 1) (map (\<lambda>buf. fst buf ! i) bufs))
                 (sum_list (map (\<lambda>buf. snd buf ! i) bufs)))
       [0 ..< Np]"

text \<open>
  Modelled from the spec: the per-particle \<open>Qlm\<close> of a configuration.  The particles are split among the workers
  (\<open>parts\<close> lists the particles of each), every worker accumulates, and the buffers are
  reduced.
\<close>

definition compute_Qlm ::
  "harmonics \<Rightarrow> real \<Rightarrow> real \<Rightarrow> nat \<Rightarrow> nat \<Rightarrow> (nat \<Rightarrow> bond list) \<Rightarrow> nat list list \<Rightarrow>
     complex list option list" where
  "compute_Qlm Ylm rmin rmax l Np nlist parts =
     reduce l Np (map (BondAccumulator Ylm rmin rmax l Np nlist) parts)"

text \<open>
  Modelled from the spec: the invariants (section 4.4), \<open>Ql = sqrt(4 pi / (2l+1) * sum over m of |Qlm|^2)\<close>, and
  \<open>Wl\<close> the sum over all \<open>m1 + m2 + m3 = 0\<close> of the 3-j coefficient times the three
  \<open>Qlm\<close>.  The entry for \<open>m\<close> is at position \<open>m + l\<close> of the row.
\<close>

definition Ql_of_Qlm :: "nat \<Rightarrow> complex list \<Rightarrow> real" where
  "Ql_of_Qlm l row = sqrt (4 * pi / (2 * real l + 1) * (\<Sum>z\<leftarrow>row. (cmod z)\<^sup>2))"

definition Wl_of_Qlm :: "(int \<Rightarrow> int \<Rightarrow> real) \<Rightarrow> nat \<Rightarrow> complex list \<Rightarrow> complex" where
  "Wl_of_Qlm w3j l row =
     (\<Sum>(m1, m2)\<leftarrow>List.product [- int l .. int l] [- int l .. int l].
        if \<bar>m1 + m2\<bar> \<le> int l
        then of_real (w3j m1 m2) * row ! nat (m1 + int l) * row ! nat (m2 + int l)
               * row ! nat (int l - m1 - m2)
        else 0)"

definition baseCompute ::
  "harmonics \<Rightarrow> real \<Rightarrow> real \<Rightarrow> nat \<Rightarrow> nat \<Rightarrow> (nat \<Rightarrow> bond list) \<Rightarrow> nat list list \<Rightarrow>
     real option list" where
  "baseCompute Ylm rmin rmax l Np nlist parts =
     map (map_option (Ql_of_Qlm l)) (compute_Qlm Ylm rmin rmax l Np nlist parts)"

definition computeWl ::
  "(int \<Rightarrow> int \<Rightarrow> real) \<Rightarrow> harmonics \<Rightarrow> real \<Rightarrow> real \<Rightarrow> nat \<Rightarrow> nat \<Rightarrow> (nat \<Rightarrow> bond list) \<Rightarrow>
     nat list list \<Rightarrow> complex option list" where
  "computeWl w3j Ylm rmin rmax l Np nlist parts =
     map (map_option (Wl_of_Qlm w3j l)) (compute_Qlm Ylm rmin rmax l Np nlist parts)"

text \<open>
  The formula that the spec and the comment of the class give for \<open>Qlm(i)\<close>, to compare
  the result of the reduction with: the mean over the bonds of a particle of the harmonic
  of order \<open>m\<close> (at position \<open>k = m + l\<close>).
\<close>

definition mean_Ylm :: "harmonics \<Rightarrow> bond list \<Rightarrow> nat \<Rightarrow> complex" where
  "mean_Ylm Ylm bonds k =
     (\<Sum>b\<leftarrow>bonds. Ylm (bond_theta b) (bond_phi b) ! k) / of_nat (length bonds)"

text \<open>
  The bonds of particle \<open>i\<close> that count, and the shape of a buffer for \<open>Np\<close> particles
  with rows of \<open>n\<close> entries (used in the proofs only).
\<close>

definition shell_bonds :: "real \<Rightarrow> real \<Rightarrow> (nat \<Rightarrow> bond list) \<Rightarrow> nat \<Rightarrow> bond list" where
  "shell_bonds rmin rmax nlist i = filter (in_shell rmin rmax) (nlist i)"

definition buffer_ok :: "nat \<Rightarrow> nat \<Rightarrow> qlm_buffer \<Rightarrow> bool" where
  "buffer_ok n Np buf =
     (length (fst buf) = Np \<and> length (snd buf) = Np \<and>
      (\<forall>k<Np. length (fst buf ! k) = n))"

section \<open>PMFTXYTM2D.cc: the class \<open>PMFTXYTM2D\<close>\<close>

text \<open>
  \<open>memset(a, 0, bytes)\<close> on an array of \<open>unsigned int\<close>, four bytes each: the leading
  entries are zeroed, and a count past the end of the array is an access out of bounds.
  The counts of the code are products of \<open>sizeof(unsigned int)\<close> and the three bin counts
  in \<open>size_t\<close>, taken to be 64 bits wide.
\<close>

definition memset_zero :: "uint list \<Rightarrow> nat \<Rightarrow> error + uint list" where
  "memset_zero a bytes =
     (if bytes \<le> 4 * length a
      then Inr (replicate (bytes div 4) 0 @ drop (bytes div 4) a)
      else Inl out_of_bounds)"

definition size_t_bytes :: "uint \<Rightarrow> uint \<Rightarrow> uint \<Rightarrow> nat" where
  "size_t_bytes a b c = (4 * unat a * unat b * unat c) mod 2 ^ 64"

text \<open>
  \<open>new unsigned int[a * b * c]\<close> followed by the \<open>memset\<close> of the new array: the length is
  a product of \<open>unsigned int\<close> and wraps around, the byte count does not until 64 bits.
  The byte count is never below the size of the array, so no entry stays unset.
\<close>

definition new_zeroed :: "uint \<Rightarrow> uint \<Rightarrow> uint \<Rightarrow> error + uint list" where
  "new_zeroed a b c = memset_zero (replicate (unat (a * b * c)) 0) (size_t_bytes a b c)"

text \<open>
  The members that the functions below use.  \<open>m_pcf_array\<close> is the canonical histogram,
  \<open>m_local_pcf_array\<close> holds the histogram of every thread that has accumulated.  The box,
  the cell list and the arrays of bin centres play no part in what follows and are left
  out.
\<close>

record pmft =
  m_max_x :: cfloat
  m_max_y :: cfloat
  m_max_T :: cfloat
  m_nbins_x :: uint
  m_nbins_y :: uint
  m_nbins_T :: uint
  m_dx :: cfloat
  m_dy :: cfloat
  m_dT :: cfloat
  m_pcf_array :: "uint list"
  m_local_pcf_array :: "uint list list"

text \<open>
  The constructor.  Its initialiser list sets \<open>m_max_x\<close> and \<open>m_max_y\<close> and the three bin
  counts, but not \<open>m_max_T\<close>: the value that member holds when \<open>m_dT\<close> is computed from it
  is indeterminate, and is the last argument here.  The widths are computed in \<open>double\<close>
  from the members and stored as \<open>float\<close>; the canonical histogram is allocated with
  \<open>m_nbins_T * m_nbins_y * m_nbins_x\<close> entries and zeroed.
\<close>

definition PMFTXYTM2D ::
  "cfloat \<Rightarrow> cfloat \<Rightarrow> cfloat \<Rightarrow> uint \<Rightarrow> uint \<Rightarrow> uint \<Rightarrow> cfloat \<Rightarrow> error + pmft" where
  "PMFTXYTM2D max_x max_y max_T nbins_x nbins_y nbins_T indeterminate =
     (if nbins_x < 1 then Inl (invalid_argument ''must be at least 1 bin in x'')
      else if nbins_y < 1 then Inl (invalid_argument ''must be at least 1 bin in y'')
      else if nbins_T < 1 then Inl (invalid_argument ''must be at least 1 bin in T'')
      else if flt max_x (FNum 0) then Inl (invalid_argument ''max_x must be positive'')
      else if flt max_y (FNum 0) then Inl (invalid_argument ''max_y must be positive'')
      else if flt max_T (FNum 0) then Inl (invalid_argument ''max_T must be positive'')
      else
        let dx = fdiv (fmul (FNum 2) max_x) (float_of_uint nbins_x);
            dy = fdiv (fmul (FNum 2) max_y) (float_of_uint nbins_y);
            dT = fdiv (fmul (FNum 2) indeterminate) (float_of_uint nbins_T)
        in if fgt dx max_x then Inl (invalid_argument ''max_x must be greater than dx'')
           else if fgt dy max_y then Inl (invalid_argument ''max_y must be greater than dy'')
           else if fgt dT max_T then Inl (invalid_argument ''max_T must be greater than dT'')
           else
             (case new_zeroed nbins_T nbins_y nbins_x of
                Inl e \<Rightarrow> Inl e
              | Inr pcf \<Rightarrow>
                  Inr \<lparr> m_max_x = max_x, m_max_y = max_y, m_max_T = indeterminate,
                        m_nbins_x = nbins_x, m_nbins_y = nbins_y, m_nbins_T = nbins_T,
                        m_dx = dx, m_dy = dy, m_dT = dT,
                        m_pcf_array = pcf, m_local_pcf_array = [] \<rparr>))"

text \<open>
  The class \<open>Index3D\<close> is declared in a header that is missing: the functions below take
  the \<open>operator()\<close> of the indexer \<open>b_i\<close> as a parameter.  The indexer of the examples is the
  one that agrees with the shape \<open>(nbins_T, nbins_y, nbins_x)\<close> that \<open>getPCFPy\<close> gives the
  array: the first index runs fastest.
\<close>

type_synonym indexer = "uint \<Rightarrow> uint \<Rightarrow> uint \<Rightarrow> uint"

definition Index3D :: "uint \<Rightarrow> uint \<Rightarrow> uint \<Rightarrow> indexer" where
  "Index3D w h d i j k = k * w * h + j * w + i"

subsection \<open>\<open>CombinePCFXYTM2D\<close> and \<open>reducePCF\<close>\<close>

text \<open>
  The statement \<open>m_pcf_array[b_i(i, j, k)] += (*local_bins)[b_i(i, j, k)]\<close>: both arrays
  are read and the first is written at the same index.
\<close>

definition add_bin :: "nat \<Rightarrow> uint list \<Rightarrow> uint list \<Rightarrow> error + uint list" where
  "add_bin n local_bins pcf =
     (if n < length pcf \<and> n < length local_bins
      then Inr (pcf[n := pcf ! n + local_bins ! n])
      else Inl out_of_bounds)"

text \<open>The innermost loop, over the histograms of the threads.\<close>

fun combine_locals :: "nat \<Rightarrow> uint list list \<Rightarrow> uint list \<Rightarrow> error + uint list" where
  "combine_locals n [] pcf = Inr pcf"
| "combine_locals n (local_bins # rest) pcf =
     (case add_bin n local_bins pcf of
        Inl e \<Rightarrow> Inl e
      | Inr pcf' \<Rightarrow> combine_locals n rest pcf')"

text \<open>A \<open>for\<close> loop over a list of index values, stopping at the first failure.\<close>

fun for_each :: "'i list \<Rightarrow> ('i \<Rightarrow> 'a \<Rightarrow> error + 'a) \<Rightarrow> 'a \<Rightarrow> error + 'a" where
  "for_each [] body a = Inr a"
| "for_each (i # is) body a =
     (case body i a of Inl e \<Rightarrow> Inl e | Inr a' \<Rightarrow> for_each is body a')"

text \<open>
  \<open>CombinePCFXYTM2D::operator()\<close> on the range of \<open>i\<close> from \<open>rbegin\<close> up to \<open>rend\<close>.  Both
  inner loops of the source run up to \<open>m_nbins_y\<close>.
\<close>

definition CombinePCFXYTM2D ::
  "indexer \<Rightarrow> uint \<Rightarrow> uint \<Rightarrow> uint \<Rightarrow> uint list list \<Rightarrow> nat \<Rightarrow> nat \<Rightarrow> uint list \<Rightarrow>
     error + uint list" where
  "CombinePCFXYTM2D b_i nbins_x nbins_y nbins_T local_pcf_array rbegin rend pcf_array =
     for_each [rbegin ..< rend]
       (\<lambda>i. for_each [0 ..< unat nbins_y]
          (\<lambda>j. for_each [0 ..< unat nbins_y]
             (\<lambda>k. combine_locals (unat (b_i (of_nat i) (of_nat j) (of_nat k)))
                      local_pcf_array)))
       pcf_array"

text \<open>
  \<open>reducePCF()\<close>: the canonical histogram is zeroed, then combined over the range of \<open>i\<close>
  from 0 to \<open>m_nbins_x\<close>.  The \<open>parallel_for\<close> hands parts of that range to several
  threads; the parts are run one after the other here.  \<open>getPCF()\<close> reduces and returns
  the canonical histogram.
\<close>

definition reducePCF :: "indexer \<Rightarrow> pmft \<Rightarrow> error + pmft" where
  "reducePCF b_i p =
     (case memset_zero (m_pcf_array p)
             (size_t_bytes (m_nbins_x p) (m_nbins_y p) (m_nbins_T p)) of
        Inl e \<Rightarrow> Inl e
      | Inr zeroed \<Rightarrow>
          (case CombinePCFXYTM2D b_i (m_nbins_x p) (m_nbins_y p) (m_nbins_T p)
                  (m_local_pcf_array p) 0 (unat (m_nbins_x p)) zeroed of
             Inl e \<Rightarrow> Inl e
           | Inr pcf \<Rightarrow> Inr (p\<lparr> m_pcf_array := pcf \<rparr>)))"

definition getPCF :: "indexer \<Rightarrow> pmft \<Rightarrow> error + (uint list \<times> pmft)" where
  "getPCF b_i p =
     (case reducePCF b_i p of Inl e \<Rightarrow> Inl e | Inr p' \<Rightarrow> Inr (m_pcf_array p', p'))"

subsection \<open>\<open>ComputePMFTXYTM2D\<close>\<close>

text \<open>
  What the loop body knows of one pair of a reference point and a point when it comes
  to binning: the squared length \<open>rsq\<close> of the wrapped displacement and the three
  coordinates \<open>x\<close>, \<open>y\<close> and \<open>T\<close>.  They are computed with the box, the rotation matrix and
  \<open>atan2\<close>, none of which is part of the file.
\<close>

record pair =
  pair_rsq :: cfloat
  pair_x :: cfloat
  pair_y :: cfloat
  pair_T :: cfloat

text \<open>The statement \<open>++m_pcf_array.local()[n]\<close>.\<close>

definition increment_bin :: "nat \<Rightarrow> uint list \<Rightarrow> error + uint list" where
  "increment_bin n hist =
     (if n < length hist then Inr (hist[n := hist ! n + 1]) else Inl out_of_bounds)"

text \<open>
  The body of the innermost loop of \<open>ComputePMFTXYTM2D::operator()\<close> for one pair, on the
  histogram of the running thread: the test of \<open>rsq\<close> against the \<open>double\<close> \<open>1e-6\<close>, the
  three bins (each the \<open>floorf\<close> of a coordinate times the inverse width, converted), the
  guard and the increment.
\<close>

definition bin_index :: "cfloat \<Rightarrow> cfloat \<Rightarrow> uint" where
  "bin_index d_inv v = cvtt_ss2si (floorf (fmul v d_inv))"

definition bin_pair :: "indexer \<Rightarrow> pmft \<Rightarrow> pair \<Rightarrow> uint list \<Rightarrow> error + uint list" where
  "bin_pair b_i p pr hist =
     (let dx_inv = fdiv (FNum 1) (m_dx p);
          dy_inv = fdiv (FNum 1) (m_dy p);
          dT_inv = fdiv (FNum 1) (m_dT p)
      in if flt (pair_rsq pr) (FNum (1 / 10 ^ 6)) then Inr hist
         else
           let ibinx = bin_index dx_inv (pair_x pr);
               ibiny = bin_index dy_inv (pair_y pr);
               ibinT = bin_index dT_inv (pair_T pr)
           in if ibinx < m_nbins_x p \<and> ibiny < m_nbins_y p \<and> ibinT < m_nbins_T p
              then increment_bin (unat (b_i ibinx ibiny ibinT)) hist
              else Inr hist)"

text \<open>
  One call of \<open>ComputePMFTXYTM2D::operator()\<close>: the histogram of the thread is allocated
  and zeroed if the thread has none yet, with \<open>m_nbins_x * m_nbins_y * m_nbins_T\<close>
  entries; then the pairs that the cell list yields for the reference points of the
  range are binned in their order.
\<close>

definition ComputePMFTXYTM2D ::
  "indexer \<Rightarrow> pmft \<Rightarrow> pair list \<Rightarrow> uint list option \<Rightarrow> error + uint list" where
  "ComputePMFTXYTM2D b_i p pairs local_hist =
     (case (case local_hist of
              None \<Rightarrow> new_zeroed (m_nbins_x p) (m_nbins_y p) (m_nbins_T p)
            | Some hist \<Rightarrow> Inr hist) of
        Inl e \<Rightarrow> Inl e
      | Inr hist \<Rightarrow> for_each pairs (bin_pair b_i p) hist)"

text \<open>
  What the code relies on of the indexer: a triple of bins that passes the guard is mapped
  to a position below \<open>n\<close>, the number of entries of the histogram.
\<close>

definition indexer_fits :: "indexer \<Rightarrow> pmft \<Rightarrow> nat \<Rightarrow> bool" where
  "indexer_fits b_i p n =
     (\<forall>i j k. i < m_nbins_x p \<and> j < m_nbins_y p \<and> k < m_nbins_T p \<longrightarrow> unat (b_i i j k) < n)"

section \<open>Construction of a Steinhardt instance\<close>

lemma Steinhardt_cases:
  "Steinhardt rmax l rmin average nrm Wl =
     (if flt rmax (FNum 0) \<or> flt rmin (FNum 0)
      then Inl (invalid_argument ''Steinhardt requires rmin and rmax must be positive.'')
      else if fge rmin rmax
      then Inl (invalid_argument ''Steinhardt requires rmin must be less than rmax.'')
      else if l < 2
      then Inl (invalid_argument ''Steinhardt requires l must be two or greater.'')
      else Inr (Steinhardt_init rmax l rmin average nrm Wl))"
  by (simp add: Steinhardt_def Steinhardt_init_def Let_def)

lemma flt_not_fge: "flt a b \<Longrightarrow> \<not> fge a b"
  by (cases a; cases b) (simp_all add: fge_def fle_def)

lemma fle_zero_not_neg: "fle (FNum 0) a \<Longrightarrow> \<not> flt a (FNum 0)"
  by (simp add: fle_def)

lemma flt_trans_zero: "fle (FNum 0) a \<Longrightarrow> flt a b \<Longrightarrow> \<not> flt b (FNum 0)"
  by (cases a; cases b) (simp_all add: fle_def)

text \<open>
  Claim C1.  The constructor throws \<open>invalid_argument\<close> exactly when one of its checks
  fires, that is when \<open>rmax < 0\<close> or \<open>rmin < 0\<close> or \<open>rmin >= rmax\<close> or \<open>l < 2\<close> (the
  comparisons being those of \<open>float\<close> and of \<open>unsigned int\<close>); and for every parameter set
  with \<open>0 <= rmin < rmax\<close> and \<open>l >= 2\<close> the construction succeeds, giving the instance of
  the initialiser list.
\<close>

theorem Steinhardt_throws_iff_invalid:
  "((\<exists>msg. Steinhardt rmax l rmin average nrm Wl = Inl (invalid_argument msg)) \<longleftrightarrow>
      (flt rmax (FNum 0) \<or> flt rmin (FNum 0) \<or> fge rmin rmax \<or> l < 2)) \<and>
   (fle (FNum 0) rmin \<and> flt rmin rmax \<and> 2 \<le> l \<longrightarrow>
      Steinhardt rmax l rmin average nrm Wl =
        Inr (Steinhardt_init rmax l rmin average nrm Wl))"
proof (intro conjI impI)
  show "(\<exists>msg. Steinhardt rmax l rmin average nrm Wl = Inl (invalid_argument msg)) \<longleftrightarrow>
      (flt rmax (FNum 0) \<or> flt rmin (FNum 0) \<or> fge rmin rmax \<or> l < 2)"
    by (simp add: Steinhardt_cases)
next
  assume valid: "fle (FNum 0) rmin \<and> flt rmin rmax \<and> 2 \<le> l"
  then have "\<not> flt rmin (FNum 0)" "\<not> flt rmax (FNum 0)" "\<not> fge rmin rmax" "\<not> l < 2"
    using fle_zero_not_neg flt_trans_zero flt_not_fge by (auto simp: not_less)
  then show "Steinhardt rmax l rmin average nrm Wl =
        Inr (Steinhardt_init rmax l rmin average nrm Wl)"
    by (simp add: Steinhardt_cases)
qed

theorem Steinhardt_throws_iff_invalid_witness:
  "fle (FNum 0) (FNum 0) \<and> flt (FNum 0) (FNum 2) \<and> (2::uint) \<le> 6 \<and>
   Steinhardt (FNum 2) 6 (FNum 0) False False False =
     Inr (Steinhardt_init (FNum 2) 6 (FNum 0) False False False) \<and>
   fge (FNum 3) (FNum 2) \<and>
   (\<exists>msg. Steinhardt (FNum 2) 6 (FNum 3) False False False = Inl (invalid_argument msg))"
proof -
  have valid: "fle (FNum 0) (FNum 0) \<and> flt (FNum 0) (FNum 2) \<and> (2::uint) \<le> 6"
    by (simp add: fle_def)
  have invalid: "fge (FNum 3) (FNum 2)"
    by (simp add: fge_def fle_def)
  from valid invalid
    Steinhardt_throws_iff_invalid [of "FNum 2" 6 "FNum 0" False False False]
    Steinhardt_throws_iff_invalid [of "FNum 2" 6 "FNum 3" False False False]
  show ?thesis by blast
qed

text \<open>
  The checks let a NaN pass: no comparison with it holds.  So a successful construction
  gives \<open>0 <= rmin < rmax\<close> for every \<open>rmax\<close> but a NaN.
\<close>

lemma Steinhardt_NaN_rmax:
  "Steinhardt FNaN 6 (FNum 1) average nrm Wl =
     Inr (Steinhardt_init FNaN 6 (FNum 1) average nrm Wl)"
  by (simp add: Steinhardt_cases fge_def fle_def)

lemma Steinhardt_Inr_valid:
  assumes "Steinhardt rmax l rmin average nrm Wl = Inr s" and "rmax \<noteq> FNaN" and "rmin \<noteq> FNaN"
  shows "fle (FNum 0) rmin \<and> flt rmin rmax \<and> 2 \<le> l"
proof -
  from assms(1) have a: "\<not> flt rmax (FNum 0)" "\<not> flt rmin (FNum 0)" "\<not> fge rmin rmax" "\<not> l < 2"
    by (simp_all add: Steinhardt_cases split: if_splits)
  from a(2) assms(3) have "fle (FNum 0) rmin"
    by (simp add: fle_def)
  moreover from a(3) assms(2,3) have "flt rmin rmax"
    by (simp add: fge_def fle_def)
  moreover from a(4) have "2 \<le> l"
    by (simp add: not_less)
  ultimately show ?thesis by simp
qed

section \<open>The accessors\<close>

text \<open>
  Claim C2.  \<open>getQl()\<close> and \<open>getWl()\<close> each return one of the four stored buffers of
  their family, chosen by the flags \<open>average\<close> and \<open>norm\<close> alone: the averaged and
  normalised one when both are set, the averaged one when only \<open>average\<close> is, the
  normalised one when only \<open>norm\<close> is, the raw one when neither is.  The accessor is a
  read of a member: it computes nothing.
\<close>

theorem accessors_select_variant:
  "(m_average s \<and> m_norm s \<longrightarrow>
      getQl s = m_QliAveNorm s \<and> getWl s = m_WliAveNorm s) \<and>
   (m_average s \<and> \<not> m_norm s \<longrightarrow> getQl s = m_QliAve s \<and> getWl s = m_WliAve s) \<and>
   (\<not> m_average s \<and> m_norm s \<longrightarrow> getQl s = m_QliNorm s \<and> getWl s = m_WliNorm s) \<and>
   (\<not> m_average s \<and> \<not> m_norm s \<longrightarrow> getQl s = m_Qli s \<and> getWl s = m_Wli s) \<and>
   getQl s \<in> {m_Qli s, m_QliAve s, m_QliNorm s, m_QliAveNorm s} \<and>
   getWl s \<in> {m_Wli s, m_WliAve s, m_WliNorm s, m_WliAveNorm s}"
  by (simp add: getQl_def getWl_def)

theorem accessors_select_variant_witness:
  "getQl (Steinhardt_init (FNum 2) 6 (FNum 0) True True True
            \<lparr> m_QliAve := Some 5, m_QliAveNorm := Some 7, m_WliAveNorm := Some 11 \<rparr>) = Some 7 \<and>
   getWl (Steinhardt_init (FNum 2) 6 (FNum 0) True True True
            \<lparr> m_QliAve := Some 5, m_QliAveNorm := Some 7, m_WliAveNorm := Some 11 \<rparr>) = Some 11 \<and>
   getQl (Steinhardt_init (FNum 2) 6 (FNum 0) True False True
            \<lparr> m_Qli := Some 2, m_QliAve := Some 5, m_WliAve := Some 9 \<rparr>) = Some 5 \<and>
   getWl (Steinhardt_init (FNum 2) 6 (FNum 0) True False True
            \<lparr> m_Qli := Some 2, m_QliAve := Some 5, m_WliAve := Some 9 \<rparr>) = Some 9 \<and>
   getQl (Steinhardt_init (FNum 2) 6 (FNum 0) False True True
            \<lparr> m_Qli := Some 2, m_QliNorm := Some 6, m_WliNorm := Some 10 \<rparr>) = Some 6 \<and>
   getWl (Steinhardt_init (FNum 2) 6 (FNum 0) False True True
            \<lparr> m_Qli := Some 2, m_QliNorm := Some 6, m_WliNorm := Some 10 \<rparr>) = Some 10 \<and>
   getQl (Steinhardt_init (FNum 2) 6 (FNum 0) False False True
            \<lparr> m_Qli := Some 2, m_QliAve := Some 5, m_Wli := Some 8 \<rparr>) = Some 2 \<and>
   getWl (Steinhardt_init (FNum 2) 6 (FNum 0) False False True
            \<lparr> m_Qli := Some 2, m_QliAve := Some 5, m_Wli := Some 8 \<rparr>) = Some 8"
  using
    accessors_select_variant
      [of "Steinhardt_init (FNum 2) 6 (FNum 0) True True True
            \<lparr> m_QliAve := Some 5, m_QliAveNorm := Some 7, m_WliAveNorm := Some 11 \<rparr>"]
    accessors_select_variant
      [of "Steinhardt_init (FNum 2) 6 (FNum 0) True False True
            \<lparr> m_Qli := Some 2, m_QliAve := Some 5, m_WliAve := Some 9 \<rparr>"]
    accessors_select_variant
      [of "Steinhardt_init (FNum 2) 6 (FNum 0) False True True
            \<lparr> m_Qli := Some 2, m_QliNorm := Some 6, m_WliNorm := Some 10 \<rparr>"]
    accessors_select_variant
      [of "Steinhardt_init (FNum 2) 6 (FNum 0) False False True
            \<lparr> m_Qli := Some 2, m_QliAve := Some 5, m_Wli := Some 8 \<rparr>"]
  by (simp add: Steinhardt_init_def)

text \<open>
  Claim C3.  On a freshly constructed instance, before any \<open>compute\<close> call, the accessors
  do not fail: \<open>getQl()\<close> and \<open>getWl()\<close> return the null pointer of a default-constructed
  \<open>shared_ptr\<close>, which no accessor dereferences, and \<open>getNP()\<close> returns 0.
\<close>

theorem fresh_instance_results:
  "Steinhardt rmax l rmin average nrm Wl = Inr s \<Longrightarrow>
     getQl s = None \<and> getWl s = None \<and> getNP s = 0"
  by (auto simp: Steinhardt_cases Steinhardt_init_def getQl_def getWl_def getNP_def
      split: if_splits)

theorem fresh_instance_results_witness:
  "Steinhardt (FNum 2) 6 (FNum 0) True False True =
     Inr (Steinhardt_init (FNum 2) 6 (FNum 0) True False True) \<and>
   getQl (Steinhardt_init (FNum 2) 6 (FNum 0) True False True) = None \<and>
   getWl (Steinhardt_init (FNum 2) 6 (FNum 0) True False True) = None \<and>
   getNP (Steinhardt_init (FNum 2) 6 (FNum 0) True False True) = 0"
proof -
  have built: "Steinhardt (FNum 2) 6 (FNum 0) True False True =
     Inr (Steinhardt_init (FNum 2) 6 (FNum 0) True False True)"
    by (simp add: Steinhardt_cases fge_def fle_def)
  from built fresh_instance_results [OF built] show ?thesis by simp
qed


text \<open>
  Claim C7, as the spec states it: the accessors hand out a snapshot, so a write through a
  returned value leaves the buffer of the engine as it was.  The header does otherwise.
  On an instance whose raw buffer is the one-element array at address 0, the pointer
  that \<open>getQl()\<close> returns is that of the member \<open>m_Qli\<close>, and storing 2 through it changes
  what the engine's own member points to from \<open>[1]\<close> to \<open>[2]\<close>.
\<close>

theorem getQl_snapshot_counterexample:
  "getQl (Steinhardt_init (FNum 2) 6 (FNum 0) False False False \<lparr> m_Qli := Some 0 \<rparr>)
     = m_Qli (Steinhardt_init (FNum 2) 6 (FNum 0) False False False \<lparr> m_Qli := Some 0 \<rparr>) \<and>
   read_array [0 \<mapsto> [1::real]]
     (m_Qli (Steinhardt_init (FNum 2) 6 (FNum 0) False False False \<lparr> m_Qli := Some 0 \<rparr>))
     = Some [1] \<and>
   write_elem [0 \<mapsto> [1::real]]
     (getQl (Steinhardt_init (FNum 2) 6 (FNum 0) False False False \<lparr> m_Qli := Some 0 \<rparr>)) 0 2
     = Some [0 \<mapsto> [2]] \<and>
   read_array [0 \<mapsto> [2::real]]
     (m_Qli (Steinhardt_init (FNum 2) 6 (FNum 0) False False False \<lparr> m_Qli := Some 0 \<rparr>))
     = Some [2]"
  by (simp add: getQl_def Steinhardt_init_def read_array_def write_elem_def)

lemma write_then_read:
  "read_array f p = Some zs \<Longrightarrow> k < length zs \<Longrightarrow>
   \<exists>f'. write_elem f p k u = Some f' \<and> read_array f' p = Some (zs[k := u])"
  by (auto simp: read_array_def write_elem_def split: option.splits)

text \<open>
  Claim C7, amended.  \<open>getQl()\<close> and \<open>getWl()\<close> return the engine's own \<open>shared_ptr\<close> to the
  selected buffer, an alias and not a copy: when the returned pointer is not null and
  \<open>i\<close> is an index of the array, a write of \<open>v\<close> at \<open>i\<close> through the returned pointer
  succeeds, and a later read through the accessor of the same instance, or through the
  member of the engine that the flags select, yields the array with \<open>v\<close> at \<open>i\<close>.
\<close>

theorem accessors_alias_buffers:
  "(read_array h (getQl s) = Some xs \<and> i < length xs \<longrightarrow>
     (\<exists>h'. write_elem h (getQl s) i v = Some h' \<and>
           read_array h' (getQl s) = Some (xs[i := v]) \<and>
           read_array h'
             (if m_average s \<and> m_norm s then m_QliAveNorm s
              else if m_average s then m_QliAve s
              else if m_norm s then m_QliNorm s
              else m_Qli s) = Some (xs[i := v]))) \<and>
   (read_array g (getWl s) = Some ys \<and> j < length ys \<longrightarrow>
     (\<exists>g'. write_elem g (getWl s) j w = Some g' \<and>
           read_array g' (getWl s) = Some (ys[j := w]) \<and>
           read_array g'
             (if m_average s \<and> m_norm s then m_WliAveNorm s
              else if m_average s then m_WliAve s
              else if m_norm s then m_WliNorm s
              else m_Wli s) = Some (ys[j := w])))"
proof -
  have ql: "(if m_average s \<and> m_norm s then m_QliAveNorm s
              else if m_average s then m_QliAve s
              else if m_norm s then m_QliNorm s
              else m_Qli s) = getQl s"
    by (simp add: getQl_def)
  have wl: "(if m_average s \<and> m_norm s then m_WliAveNorm s
              else if m_average s then m_WliAve s
              else if m_norm s then m_WliNorm s
              else m_Wli s) = getWl s"
    by (simp add: getWl_def)
  show ?thesis
    unfolding ql wl
    using write_then_read [of h "getQl s" xs i v] write_then_read [of g "getWl s" ys j w]
    by blast
qed

theorem accessors_alias_buffers_witness:
  "read_array [0 \<mapsto> [1::real, 3]]
     (getQl (Steinhardt_init (FNum 2) 6 (FNum 0) False False True
        \<lparr> m_Qli := Some 0, m_Wli := Some 1 \<rparr>)) = Some [1, 3] \<and>
   (1::nat) < length [1::real, 3] \<and>
   (\<exists>h'. write_elem [0 \<mapsto> [1::real, 3]]
       (getQl (Steinhardt_init (FNum 2) 6 (FNum 0) False False True
          \<lparr> m_Qli := Some 0, m_Wli := Some 1 \<rparr>)) 1 2 = Some h' \<and>
     read_array h'
       (m_Qli (Steinhardt_init (FNum 2) 6 (FNum 0) False False True
          \<lparr> m_Qli := Some 0, m_Wli := Some 1 \<rparr>)) = Some [1, 2]) \<and>
   read_array [1 \<mapsto> [\<i>]]
     (getWl (Steinhardt_init (FNum 2) 6 (FNum 0) False False True
        \<lparr> m_Qli := Some 0, m_Wli := Some 1 \<rparr>)) = Some [\<i>] \<and>
   (0::nat) < length [\<i>] \<and>
   (\<exists>g'. write_elem [1 \<mapsto> [\<i>]]
       (getWl (Steinhardt_init (FNum 2) 6 (FNum 0) False False True
          \<lparr> m_Qli := Some 0, m_Wli := Some 1 \<rparr>)) 0 0 = Some g' \<and>
     read_array g'
       (m_Wli (Steinhardt_init (FNum 2) 6 (FNum 0) False False True
          \<lparr> m_Qli := Some 0, m_Wli := Some 1 \<rparr>)) = Some [0])"
proof -
  let ?s = "Steinhardt_init (FNum 2) 6 (FNum 0) False False True
              \<lparr> m_Qli := Some 0, m_Wli := Some 1 \<rparr>"
  have q: "read_array [0 \<mapsto> [1::real, 3]] (getQl ?s) = Some [1, 3] \<and>
           (1::nat) < length [1::real, 3]"
    by (simp add: getQl_def Steinhardt_init_def read_array_def)
  have w: "read_array [1 \<mapsto> [\<i>]] (getWl ?s) = Some [\<i>] \<and> (0::nat) < length [\<i>]"
    by (simp add: getWl_def Steinhardt_init_def read_array_def)
  from q w
    accessors_alias_buffers
      [of "[0 \<mapsto> [1::real, 3]]" ?s "[1, 3]" 1 2 "[1 \<mapsto> [\<i>]]" "[\<i>]" 0 0]
  have "(\<exists>h'. write_elem [0 \<mapsto> [1::real, 3]] (getQl ?s) 1 2 = Some h' \<and>
           read_array h' (m_Qli ?s) = Some [1, 2]) \<and>
        (\<exists>g'. write_elem [1 \<mapsto> [\<i>]] (getWl ?s) 0 0 = Some g' \<and>
           read_array g' (m_Wli ?s) = Some [0])"
    by (auto simp: Steinhardt_init_def)
  with q w show ?thesis by simp
qed

section \<open>Availability of the third-order result\<close>

lemma compute_flags:
  "m_average (compute Np a s) = m_average s"
  "m_norm (compute Np a s) = m_norm s"
  "m_Wl (compute Np a s) = m_Wl s"
  by (simp_all add: compute_def reallocateArrays_def Let_def)

lemma compute_Np: "m_Np (compute Np a s) = Np"
  by (simp add: compute_def Let_def)

lemma compute_Ql_buffers:
  "m_Qli (compute Np a s) = (if m_Qli s = None \<or> Np \<noteq> m_Np s then Some (a + 2) else m_Qli s)"
  "m_QliAve (compute Np a s) =
     (if (m_Qli s = None \<or> Np \<noteq> m_Np s) \<and> m_average s then Some (a + 5) else m_QliAve s)"
  "m_QliNorm (compute Np a s) =
     (if (m_Qli s = None \<or> Np \<noteq> m_Np s) \<and> m_norm s then Some (a + 6) else m_QliNorm s)"
  "m_QliAveNorm (compute Np a s) =
     (if (m_Qli s = None \<or> Np \<noteq> m_Np s) \<and> m_average s \<and> m_norm s then Some (a + 7)
      else m_QliAveNorm s)"
  by (simp_all add: compute_def reallocateArrays_def Let_def)

lemma compute_Wl_buffers:
  "m_Wli (compute Np a s) =
     (if (m_Qli s = None \<or> Np \<noteq> m_Np s) \<and> m_Wl s then Some (a + 8) else m_Wli s)"
  "m_WliAve (compute Np a s) =
     (if (m_Qli s = None \<or> Np \<noteq> m_Np s) \<and> m_Wl s \<and> m_average s then Some (a + 9)
      else m_WliAve s)"
  "m_WliNorm (compute Np a s) =
     (if (m_Qli s = None \<or> Np \<noteq> m_Np s) \<and> m_Wl s \<and> m_norm s then Some (a + 10)
      else m_WliNorm s)"
  "m_WliAveNorm (compute Np a s) =
     (if (m_Qli s = None \<or> Np \<noteq> m_Np s) \<and> m_Wl s \<and> m_average s \<and> m_norm s
      then Some (a + 11) else m_WliAveNorm s)"
  by (simp_all add: compute_def reallocateArrays_def Let_def)

lemma compute_Wl_buffers_null:
  assumes "\<not> m_Wl s"
    and "m_Wli s = None \<and> m_WliAve s = None \<and> m_WliNorm s = None \<and> m_WliAveNorm s = None"
  shows "m_Wli (compute Np a s) = None \<and> m_WliAve (compute Np a s) = None \<and>
         m_WliNorm (compute Np a s) = None \<and> m_WliAveNorm (compute Np a s) = None"
  using assms by (simp add: compute_Wl_buffers)

lemma computes_Wl_buffers_null:
  "\<not> m_Wl s \<Longrightarrow>
   m_Wli s = None \<and> m_WliAve s = None \<and> m_WliNorm s = None \<and> m_WliAveNorm s = None \<Longrightarrow>
   \<not> m_Wl (computes calls s) \<and>
   m_Wli (computes calls s) = None \<and> m_WliAve (computes calls s) = None \<and>
   m_WliNorm (computes calls s) = None \<and> m_WliAveNorm (computes calls s) = None"
proof (induction calls arbitrary: s)
  case Nil
  then show ?case by simp
next
  case (Cons c calls)
  obtain Np a where c: "c = (Np, a)" by (cases c)
  have "\<not> m_Wl (compute Np a s)"
    using Cons.prems(1) by (simp add: compute_flags)
  moreover have "m_Wli (compute Np a s) = None \<and> m_WliAve (compute Np a s) = None \<and>
         m_WliNorm (compute Np a s) = None \<and> m_WliAveNorm (compute Np a s) = None"
    using Cons.prems by (rule compute_Wl_buffers_null)
  ultimately show ?case
    using Cons.IH [of "compute Np a s"] by (simp add: c)
qed

lemma computes_m_Wl: "m_Wl (computes calls s) = m_Wl s"
proof (induction calls arbitrary: s)
  case Nil
  show ?case by simp
next
  case (Cons c calls)
  obtain Np a where c: "c = (Np, a)" by (cases c)
  show ?case using Cons.IH [of "compute Np a s"] by (simp add: c compute_flags)
qed

lemma getWl_null_of_buffers_null:
  "m_Wli s = None \<and> m_WliAve s = None \<and> m_WliNorm s = None \<and> m_WliAveNorm s = None \<Longrightarrow>
   getWl s = None"
  by (simp add: getWl_def)

lemma Steinhardt_Inr_eq:
  "Steinhardt rmax l rmin average nrm Wl = Inr s \<Longrightarrow>
   s = Steinhardt_init rmax l rmin average nrm Wl"
  by (simp add: Steinhardt_cases split: if_splits)

text \<open>
  With the flag set, the selected third-order buffer is there after the first
  \<open>compute\<close> call and stays.
\<close>

lemma compute_active_Wl_allocated:
  "m_Wl s \<Longrightarrow> m_Qli s = None \<or> getWl s \<noteq> None \<Longrightarrow> getWl (compute Np a s) \<noteq> None"
  by (auto simp: getWl_def compute_flags compute_Wl_buffers)

lemma computes_active_Wl_allocated:
  "m_Wl s \<Longrightarrow> getWl s \<noteq> None \<Longrightarrow> getWl (computes calls s) \<noteq> None"
proof (induction calls arbitrary: s)
  case Nil
  then show ?case by simp
next
  case (Cons c calls)
  obtain Np a where c: "c = (Np, a)" by (cases c)
  have "m_Wl (compute Np a s)"
    using Cons.prems(1) by (simp add: compute_flags)
  moreover have "getWl (compute Np a s) \<noteq> None"
    using Cons.prems by (simp add: compute_active_Wl_allocated)
  ultimately show ?case
    using Cons.IH [of "compute Np a s"] by (simp add: c)
qed

lemma getWl_available_with_useWl:
  assumes "Steinhardt rmax l rmin average nrm True = Inr s" and "calls \<noteq> []"
  shows "getWl (computes calls s) \<noteq> None"
proof -
  from assms(2) obtain Np a rest where calls: "calls = (Np, a) # rest"
    by (cases calls) auto
  from assms(1) have s: "s = Steinhardt_init rmax l rmin average nrm True"
    by (rule Steinhardt_Inr_eq)
  then have "m_Wl s" and "m_Qli s = None"
    by (simp_all add: Steinhardt_init_def)
  then have "m_Wl (compute Np a s)" and "getWl (compute Np a s) \<noteq> None"
    by (simp_all add: compute_flags compute_active_Wl_allocated)
  then show ?thesis
    by (simp add: calls computes_active_Wl_allocated)
qed

text \<open>
  Claim C6.  For an instance constructed with \<open>useWl = false\<close> the third-order result is
  not available: after any sequence of \<open>compute\<close> calls \<open>getWl()\<close> still returns the null
  pointer.  So \<open>getWl()\<close> returns a buffer only on an instance constructed with
  \<open>useWl = true\<close>, the flag that \<open>getUseWl()\<close> reports.  (The accessor itself does not look
  at the flag and never throws: what it lacks without the flag is a buffer.)
\<close>

theorem getWl_available_only_with_useWl:
  "Steinhardt rmax l rmin average nrm Wl = Inr s \<Longrightarrow>
     getUseWl (computes calls s) = Wl \<and>
     (\<not> Wl \<longrightarrow> getWl (computes calls s) = None) \<and>
     (getWl (computes calls s) \<noteq> None \<longrightarrow> getUseWl (computes calls s))"
proof -
  assume built: "Steinhardt rmax l rmin average nrm Wl = Inr s"
  then have s: "s = Steinhardt_init rmax l rmin average nrm Wl"
    by (rule Steinhardt_Inr_eq)
  have flag: "getUseWl (computes calls s) = Wl"
    by (simp add: getUseWl_def computes_m_Wl s Steinhardt_init_def)
  have null: "getWl (computes calls s) = None" if "\<not> Wl"
  proof -
    have "\<not> m_Wl s" using that by (simp add: s Steinhardt_init_def)
    moreover have "m_Wli s = None \<and> m_WliAve s = None \<and> m_WliNorm s = None \<and>
        m_WliAveNorm s = None"
      by (simp add: s Steinhardt_init_def)
    ultimately show ?thesis
      using computes_Wl_buffers_null [of s calls] getWl_null_of_buffers_null by blast
  qed
  show ?thesis
  proof (cases Wl)
    case True
    with flag show ?thesis by simp
  next
    case False
    with flag null show ?thesis by simp
  qed
qed

theorem getWl_available_only_with_useWl_witness:
  "Steinhardt (FNum 2) 6 (FNum 0) True False False =
     Inr (Steinhardt_init (FNum 2) 6 (FNum 0) True False False) \<and>
   getWl (computes [(5, 100), (7, 200)]
     (Steinhardt_init (FNum 2) 6 (FNum 0) True False False)) = None \<and>
   getQl (computes [(5, 100), (7, 200)]
     (Steinhardt_init (FNum 2) 6 (FNum 0) True False False)) = Some 205 \<and>
   Steinhardt (FNum 2) 6 (FNum 0) True False True =
     Inr (Steinhardt_init (FNum 2) 6 (FNum 0) True False True) \<and>
   getWl (computes [(5, 100), (7, 200)]
     (Steinhardt_init (FNum 2) 6 (FNum 0) True False True)) = Some 209 \<and>
   getUseWl (computes [(5, 100), (7, 200)]
     (Steinhardt_init (FNum 2) 6 (FNum 0) True False True))"
proof -
  have off: "Steinhardt (FNum 2) 6 (FNum 0) True False False =
     Inr (Steinhardt_init (FNum 2) 6 (FNum 0) True False False)"
    by (simp add: Steinhardt_cases fge_def fle_def)
  have on: "Steinhardt (FNum 2) 6 (FNum 0) True False True =
     Inr (Steinhardt_init (FNum 2) 6 (FNum 0) True False True)"
    by (simp add: Steinhardt_cases fge_def fle_def)
  have ql: "getQl (computes [(5, 100), (7, 200)]
     (Steinhardt_init (FNum 2) 6 (FNum 0) True False False)) = Some 205"
    by (simp add: getQl_def compute_flags compute_Np compute_Ql_buffers Steinhardt_init_def)
  have wl: "getWl (computes [(5, 100), (7, 200)]
     (Steinhardt_init (FNum 2) 6 (FNum 0) True False True)) = Some 209"
    by (simp add: getWl_def compute_flags compute_Np compute_Ql_buffers compute_Wl_buffers
        Steinhardt_init_def)
  from off on ql wl
    getWl_available_only_with_useWl [OF off, of "[(5, 100), (7, 200)]"]
    getWl_available_only_with_useWl [OF on, of "[(5, 100), (7, 200)]"]
  show ?thesis by simp
qed


section \<open>Accumulation, reduction and the invariants\<close>

lemma empty_buffer_ok: "buffer_ok (2 * l + 1) Np (empty_buffer l Np)"
  by (simp add: buffer_ok_def empty_buffer_def)

lemma empty_buffer_cell:
  "k < Np \<Longrightarrow> m < 2 * l + 1 \<Longrightarrow> fst (empty_buffer l Np) ! k ! m = 0"
  "k < Np \<Longrightarrow> snd (empty_buffer l Np) ! k = 0"
  by (simp_all add: empty_buffer_def del: replicate.simps)

lemma accumulate_bond_ok:
  assumes ok: "buffer_ok n Np buf" and Y: "\<And>t p. length (Ylm t p) = n"
  shows "buffer_ok n Np (accumulate_bond Ylm rmin rmax i b buf)"
proof (cases "in_shell rmin rmax b")
  case False
  with ok show ?thesis by (simp add: accumulate_bond_def)
next
  case True
  have "length ((fst buf)[i := map2 (+) (fst buf ! i) (Ylm (bond_theta b) (bond_phi b))] ! k) = n"
    if "k < Np" for k
  proof (cases "k = i")
    case True
    then show ?thesis
      using that ok Y by (simp add: buffer_ok_def)
  next
    case False
    then show ?thesis
      using that ok by (simp add: buffer_ok_def)
  qed
  with True ok show ?thesis
    by (simp add: accumulate_bond_def buffer_ok_def)
qed

lemma accumulate_bond_cell:
  assumes ok: "buffer_ok n Np buf" and Y: "\<And>t p. length (Ylm t p) = n"
    and k: "k < Np" and m: "m < n"
  shows "fst (accumulate_bond Ylm rmin rmax i b buf) ! k ! m =
           fst buf ! k ! m +
           (if k = i \<and> in_shell rmin rmax b then Ylm (bond_theta b) (bond_phi b) ! m else 0)"
proof (cases "k = i \<and> in_shell rmin rmax b")
  case True
  then show ?thesis
    using ok Y k m by (simp add: accumulate_bond_def buffer_ok_def)
next
  case False
  then show ?thesis
    using ok k by (auto simp: accumulate_bond_def buffer_ok_def)
qed

lemma accumulate_bond_count:
  assumes "buffer_ok n Np buf" and "k < Np"
  shows "snd (accumulate_bond Ylm rmin rmax i b buf) ! k =
           snd buf ! k + (if k = i \<and> in_shell rmin rmax b then 1 else 0)"
  using assms by (auto simp: buffer_ok_def accumulate_bond_def nth_list_update)

lemma fold_accumulate_bond:
  assumes Y: "\<And>t p. length (Ylm t p) = n"
  shows "buffer_ok n Np buf \<Longrightarrow>
     buffer_ok n Np (fold (accumulate_bond Ylm rmin rmax i) bs buf) \<and>
     (\<forall>k<Np. \<forall>m<n.
        fst (fold (accumulate_bond Ylm rmin rmax i) bs buf) ! k ! m =
          fst buf ! k ! m +
          (if k = i then \<Sum>b\<leftarrow>filter (in_shell rmin rmax) bs.
                           Ylm (bond_theta b) (bond_phi b) ! m else 0)) \<and>
     (\<forall>k<Np. snd (fold (accumulate_bond Ylm rmin rmax i) bs buf) ! k =
          snd buf ! k + (if k = i then length (filter (in_shell rmin rmax) bs) else 0))"
proof (induction bs arbitrary: buf)
  case Nil
  then show ?case by simp
next
  case (Cons b bs)
  let ?buf = "accumulate_bond Ylm rmin rmax i b buf"
  have ok: "buffer_ok n Np ?buf"
    using Cons.prems Y by (rule accumulate_bond_ok)
  note IH = Cons.IH [OF ok]
  show ?case
  proof (intro conjI allI impI)
    show "buffer_ok n Np (fold (accumulate_bond Ylm rmin rmax i) (b # bs) buf)"
      using IH by simp
  next
    fix k m
    assume km: "k < Np" "m < n"
    have "fst ?buf ! k ! m = fst buf ! k ! m +
           (if k = i \<and> in_shell rmin rmax b then Ylm (bond_theta b) (bond_phi b) ! m else 0)"
      using Cons.prems Y km by (rule accumulate_bond_cell)
    then show "fst (fold (accumulate_bond Ylm rmin rmax i) (b # bs) buf) ! k ! m =
          fst buf ! k ! m +
          (if k = i then \<Sum>b\<leftarrow>filter (in_shell rmin rmax) (b # bs).
                           Ylm (bond_theta b) (bond_phi b) ! m else 0)"
      using IH km by simp
  next
    fix k
    assume k: "k < Np"
    have "snd ?buf ! k = snd buf ! k + (if k = i \<and> in_shell rmin rmax b then 1 else 0)"
      using Cons.prems k by (rule accumulate_bond_count)
    then show "snd (fold (accumulate_bond Ylm rmin rmax i) (b # bs) buf) ! k =
          snd buf ! k + (if k = i then length (filter (in_shell rmin rmax) (b # bs)) else 0)"
      using IH k by simp
  qed
qed


lemma accumulate_particle_effect:
  assumes Y: "\<And>t p. length (Ylm t p) = n" and ok: "buffer_ok n Np buf"
  shows "buffer_ok n Np (accumulate_particle Ylm rmin rmax nlist i buf) \<and>
     (\<forall>k<Np. \<forall>m<n.
        fst (accumulate_particle Ylm rmin rmax nlist i buf) ! k ! m =
          fst buf ! k ! m +
          (if k = i then \<Sum>b\<leftarrow>shell_bonds rmin rmax nlist k.
                           Ylm (bond_theta b) (bond_phi b) ! m else 0)) \<and>
     (\<forall>k<Np. snd (accumulate_particle Ylm rmin rmax nlist i buf) ! k =
          snd buf ! k + (if k = i then length (shell_bonds rmin rmax nlist k) else 0))"
  using fold_accumulate_bond [OF Y ok, where rmin = rmin and rmax = rmax and i = i and bs = "nlist i"]
  by (simp add: accumulate_particle_def shell_bonds_def)

lemma fold_accumulate_particle:
  assumes Y: "\<And>t p. length (Ylm t p) = n"
  shows "buffer_ok n Np buf \<Longrightarrow>
     buffer_ok n Np (fold (accumulate_particle Ylm rmin rmax nlist) part buf) \<and>
     (\<forall>k<Np. \<forall>m<n.
        fst (fold (accumulate_particle Ylm rmin rmax nlist) part buf) ! k ! m =
          fst buf ! k ! m +
          of_nat (count_list part k) *
            (\<Sum>b\<leftarrow>shell_bonds rmin rmax nlist k. Ylm (bond_theta b) (bond_phi b) ! m)) \<and>
     (\<forall>k<Np. snd (fold (accumulate_particle Ylm rmin rmax nlist) part buf) ! k =
          snd buf ! k + count_list part k * length (shell_bonds rmin rmax nlist k))"
proof (induction part arbitrary: buf)
  case Nil
  then show ?case by simp
next
  case (Cons i part)
  let ?buf = "accumulate_particle Ylm rmin rmax nlist i buf"
  note step = accumulate_particle_effect [OF Y Cons.prems, where rmin = rmin and rmax = rmax and nlist = nlist and i = i]
  then have ok: "buffer_ok n Np ?buf" by simp
  note IH = Cons.IH [OF ok]
  show ?case
  proof (intro conjI allI impI)
    show "buffer_ok n Np (fold (accumulate_particle Ylm rmin rmax nlist) (i # part) buf)"
      using IH by simp
  next
    fix k m
    assume km: "k < Np" "m < n"
    with step IH
    show "fst (fold (accumulate_particle Ylm rmin rmax nlist) (i # part) buf) ! k ! m =
          fst buf ! k ! m +
          of_nat (count_list (i # part) k) *
            (\<Sum>b\<leftarrow>shell_bonds rmin rmax nlist k. Ylm (bond_theta b) (bond_phi b) ! m)"
      by (simp add: algebra_simps)
  next
    fix k
    assume k: "k < Np"
    with step IH
    show "snd (fold (accumulate_particle Ylm rmin rmax nlist) (i # part) buf) ! k =
          snd buf ! k + count_list (i # part) k * length (shell_bonds rmin rmax nlist k)"
      by simp
  qed
qed

lemma BondAccumulator_effect:
  assumes Y: "\<And>t p. length (Ylm t p) = 2 * l + 1" and k: "k < Np"
  shows "length (fst (BondAccumulator Ylm rmin rmax l Np nlist part) ! k) = 2 * l + 1"
    and "m < 2 * l + 1 \<Longrightarrow>
         fst (BondAccumulator Ylm rmin rmax l Np nlist part) ! k ! m =
           of_nat (count_list part k) *
             (\<Sum>b\<leftarrow>shell_bonds rmin rmax nlist k. Ylm (bond_theta b) (bond_phi b) ! m)"
    and "snd (BondAccumulator Ylm rmin rmax l Np nlist part) ! k =
           count_list part k * length (shell_bonds rmin rmax nlist k)"
proof -
  note eff = fold_accumulate_particle [OF Y empty_buffer_ok, where Np = Np and rmin = rmin and rmax = rmax and nlist = nlist and part = part]
  show "length (fst (BondAccumulator Ylm rmin rmax l Np nlist part) ! k) = 2 * l + 1"
    using eff k by (simp add: BondAccumulator_def buffer_ok_def)
  show "fst (BondAccumulator Ylm rmin rmax l Np nlist part) ! k ! m =
           of_nat (count_list part k) *
             (\<Sum>b\<leftarrow>shell_bonds rmin rmax nlist k. Ylm (bond_theta b) (bond_phi b) ! m)"
    if "m < 2 * l + 1"
    using eff k that empty_buffer_cell(1) [of k Np m l] by (simp add: BondAccumulator_def)
  show "snd (BondAccumulator Ylm rmin rmax l Np nlist part) ! k =
           count_list part k * length (shell_bonds rmin rmax nlist k)"
    using eff k empty_buffer_cell(2) [of k Np l] by (simp add: BondAccumulator_def)
qed

lemma fold_add_rows:
  "length acc = n \<Longrightarrow> \<forall>r\<in>set rows. length r = n \<Longrightarrow>
   length (fold (\<lambda>row acc. map2 (+) acc row) rows acc) = n \<and>
   (\<forall>m<n. fold (\<lambda>row acc. map2 (+) acc row) rows acc ! m = acc ! m + (\<Sum>r\<leftarrow>rows. r ! m))"
proof (induction rows arbitrary: acc)
  case Nil
  then show ?case by simp
next
  case (Cons r rows)
  have len: "length (map2 (+) acc r) = n"
    using Cons.prems by simp
  have rest: "\<forall>r\<in>set rows. length r = n"
    using Cons.prems by simp
  from Cons.IH [OF len rest] Cons.prems show ?case
    by (simp add: algebra_simps)
qed

lemma sum_rows_nth:
  assumes "\<forall>r\<in>set rows. length r = n"
  shows "length (sum_rows n rows) = n"
    and "m < n \<Longrightarrow> sum_rows n rows ! m = (\<Sum>r\<leftarrow>rows. r ! m)"
  using fold_add_rows [of "replicate n 0" n rows] assms
  by (simp_all add: sum_rows_def)

lemma count_list_concat:
  "count_list (concat parts) k = (\<Sum>part\<leftarrow>parts. count_list part k)"
  by (induction parts) simp_all

lemma those_map_Some: "those (map (\<lambda>z. Some (f z)) xs) = Some (map f xs)"
  by (induction xs) simp_all

lemma average_row_cases:
  "average_row row n =
     Some (if n = 0 then map (\<lambda>z. 0) row else map (\<lambda>z. z / of_nat n) row)"
  by (simp add: average_row_def divide_by_count_def those_map_Some)

lemma reduce_nth:
  "i < Np \<Longrightarrow>
   reduce l Np bufs ! i =
     average_row (sum_rows (2 * l + 1) (map (\<lambda>buf. fst buf ! i) bufs))
       (sum_list (map (\<lambda>buf. snd buf ! i) bufs))"
  by (simp add: reduce_def)

lemma sum_list_counts_complex:
  "(\<Sum>part\<leftarrow>parts. of_nat (count_list part k) * (s :: complex)) =
     of_nat (count_list (concat parts) k) * s"
  by (induction parts) (simp_all add: algebra_simps)

lemma sum_list_counts_nat:
  "(\<Sum>part\<leftarrow>parts. count_list part k * (c :: nat)) = count_list (concat parts) k * c"
  by (induction parts) (simp_all add: algebra_simps)

text \<open>
  What the reduction sums for particle \<open>i\<close>: as many times the sums over the bonds of \<open>i\<close>
  as \<open>i\<close> occurs among the particles of the workers.
\<close>

lemma reduced_sums:
  assumes Y: "\<And>t p. length (Ylm t p) = 2 * l + 1" and i: "i < Np"
  shows "length (sum_rows (2 * l + 1) (map (\<lambda>buf. fst buf ! i) (map (BondAccumulator Ylm rmin rmax l Np nlist) parts))) = 2 * l + 1"
    and "m < 2 * l + 1 \<Longrightarrow>
         sum_rows (2 * l + 1) (map (\<lambda>buf. fst buf ! i) (map (BondAccumulator Ylm rmin rmax l Np nlist) parts)) ! m =
           of_nat (count_list (concat parts) i) *
             (\<Sum>b\<leftarrow>shell_bonds rmin rmax nlist i. Ylm (bond_theta b) (bond_phi b) ! m)"
    and "sum_list (map (\<lambda>buf. snd buf ! i) (map (BondAccumulator Ylm rmin rmax l Np nlist) parts)) =
           count_list (concat parts) i * length (shell_bonds rmin rmax nlist i)"
proof -
  have lens: "\<forall>r\<in>set (map (\<lambda>buf. fst buf ! i) (map (BondAccumulator Ylm rmin rmax l Np nlist) parts)). length r = 2 * l + 1"
    using BondAccumulator_effect(1) [OF Y i] by auto
  show "length (sum_rows (2 * l + 1) (map (\<lambda>buf. fst buf ! i) (map (BondAccumulator Ylm rmin rmax l Np nlist) parts))) = 2 * l + 1"
    using lens by (rule sum_rows_nth(1))
  show "sum_rows (2 * l + 1) (map (\<lambda>buf. fst buf ! i) (map (BondAccumulator Ylm rmin rmax l Np nlist) parts)) ! m =
           of_nat (count_list (concat parts) i) *
             (\<Sum>b\<leftarrow>shell_bonds rmin rmax nlist i. Ylm (bond_theta b) (bond_phi b) ! m)"
    if m: "m < 2 * l + 1"
  proof -
    have "sum_rows (2 * l + 1) (map (\<lambda>buf. fst buf ! i) (map (BondAccumulator Ylm rmin rmax l Np nlist) parts)) ! m =
        (\<Sum>r\<leftarrow>map (\<lambda>buf. fst buf ! i) (map (BondAccumulator Ylm rmin rmax l Np nlist) parts). r ! m)"
      using lens m by (rule sum_rows_nth(2))
    also have "\<dots> = (\<Sum>part\<leftarrow>parts. fst (BondAccumulator Ylm rmin rmax l Np nlist part) ! i ! m)"
      by (simp add: comp_def)
    also have "\<dots> = (\<Sum>part\<leftarrow>parts. of_nat (count_list part i) *
             (\<Sum>b\<leftarrow>shell_bonds rmin rmax nlist i. Ylm (bond_theta b) (bond_phi b) ! m))"
      using BondAccumulator_effect(2) [OF Y i m] by simp
    finally show ?thesis
      by (simp add: sum_list_counts_complex)
  qed
  have "sum_list (map (\<lambda>buf. snd buf ! i) (map (BondAccumulator Ylm rmin rmax l Np nlist) parts)) =
      (\<Sum>part\<leftarrow>parts. snd (BondAccumulator Ylm rmin rmax l Np nlist part) ! i)"
    by (simp add: comp_def)
  also have "\<dots> = (\<Sum>part\<leftarrow>parts. count_list part i * length (shell_bonds rmin rmax nlist i))"
    using BondAccumulator_effect(3) [OF Y i] by simp
  finally show "sum_list (map (\<lambda>buf. snd buf ! i) (map (BondAccumulator Ylm rmin rmax l Np nlist) parts)) =
           count_list (concat parts) i * length (shell_bonds rmin rmax nlist i)"
    by (simp add: sum_list_counts_nat)
qed

lemma compute_Qlm_row:
  assumes Y: "\<And>t p. length (Ylm t p) = 2 * l + 1" and i: "i < Np"
    and once: "count_list (concat parts) i = 1"
  shows "compute_Qlm Ylm rmin rmax l Np nlist parts ! i =
     Some (map (\<lambda>k. if shell_bonds rmin rmax nlist i = [] then 0
                     else mean_Ylm Ylm (shell_bonds rmin rmax nlist i) k)
             [0 ..< 2 * l + 1])"
proof -
  let ?bufs = "map (BondAccumulator Ylm rmin rmax l Np nlist) parts"
  let ?row = "sum_rows (2 * l + 1) (map (\<lambda>buf. fst buf ! i) ?bufs)"
  let ?bonds = "shell_bonds rmin rmax nlist i"
  let ?S = "\<lambda>m. \<Sum>b\<leftarrow>?bonds. Ylm (bond_theta b) (bond_phi b) ! m"
  have len: "length ?row = 2 * l + 1"
    using Y i by (rule reduced_sums(1))
  have cell: "?row ! m = ?S m" if "m < 2 * l + 1" for m
    using reduced_sums(2) [OF Y i that, where rmin = rmin and rmax = rmax and nlist = nlist and parts = parts] once by simp
  have row: "?row = map ?S [0 ..< 2 * l + 1]"
    using len cell by (intro nth_equalityI) (simp_all del: upt_Suc)
  have count: "sum_list (map (\<lambda>buf. snd buf ! i) ?bufs) = length ?bonds"
    using reduced_sums(3) [OF Y i, where rmin = rmin and rmax = rmax and nlist = nlist and parts = parts] once by simp
  have "compute_Qlm Ylm rmin rmax l Np nlist parts ! i = average_row ?row (length ?bonds)"
    using i count by (simp add: compute_Qlm_def reduce_nth)
  also have "\<dots> = Some (map (\<lambda>k. if ?bonds = [] then 0 else mean_Ylm Ylm ?bonds k)
             [0 ..< 2 * l + 1])"
    by (subst row) (simp add: average_row_cases mean_Ylm_def comp_def del: upt_Suc)
  finally show ?thesis .
qed

lemma compute_Qlm_length: "length (compute_Qlm Ylm rmin rmax l Np nlist parts) = Np"
  by (simp add: compute_Qlm_def reduce_def)

lemma compute_Qlm_defined:
  "k < Np \<Longrightarrow> compute_Qlm Ylm rmin rmax l Np nlist parts ! k \<noteq> None"
  by (simp add: compute_Qlm_def reduce_nth average_row_cases)

lemma baseCompute_nth:
  "i < Np \<Longrightarrow>
   baseCompute Ylm rmin rmax l Np nlist parts ! i =
     map_option (Ql_of_Qlm l) (compute_Qlm Ylm rmin rmax l Np nlist parts ! i)"
  by (simp add: baseCompute_def compute_Qlm_length)

lemma computeWl_nth:
  "i < Np \<Longrightarrow>
   computeWl w3j Ylm rmin rmax l Np nlist parts ! i =
     map_option (Wl_of_Qlm w3j l) (compute_Qlm Ylm rmin rmax l Np nlist parts ! i)"
  by (simp add: computeWl_def compute_Qlm_length)

lemma Ql_of_Qlm_map:
  "Ql_of_Qlm l (map q ks) = sqrt (4 * pi / (2 * real l + 1) * (\<Sum>k\<leftarrow>ks. (cmod (q k))\<^sup>2))"
  by (simp add: Ql_of_Qlm_def comp_def)

text \<open>
  Claim C5.  For a particle \<open>i\<close> that exactly one worker handles, once, the base order
  parameter is \<open>Ql(i) = sqrt(4 pi / (2l+1) * sum over m of |Qlm(i, m)|^2)\<close>, where
  \<open>Qlm(i, m)\<close> is the mean over the bonds of \<open>i\<close> in \<open>[rmin, rmax)\<close> of the spherical harmonic
  \<open>Ylm\<close> at the angles of the bond (and zero when \<open>i\<close> has no such bond).
\<close>

theorem base_Ql_formula:
  assumes "\<forall>t p. length (Ylm t p) = 2 * l + 1" and "i < Np"
    and "count_list (concat parts) i = 1"
  shows "compute_Qlm Ylm rmin rmax l Np nlist parts ! i =
           Some (map (\<lambda>k. if shell_bonds rmin rmax nlist i = [] then 0
                           else mean_Ylm Ylm (shell_bonds rmin rmax nlist i) k)
                   [0 ..< 2 * l + 1]) \<and>
         baseCompute Ylm rmin rmax l Np nlist parts ! i =
           Some (sqrt (4 * pi / (2 * real l + 1) *
                   (\<Sum>k\<leftarrow>[0 ..< 2 * l + 1].
                      (cmod (if shell_bonds rmin rmax nlist i = [] then 0
                             else mean_Ylm Ylm (shell_bonds rmin rmax nlist i) k))\<^sup>2)))"
proof -
  have Y: "\<And>t p. length (Ylm t p) = 2 * l + 1"
    using assms(1) by simp
  note row = compute_Qlm_row [OF Y assms(2) assms(3), where rmin = rmin and rmax = rmax
      and nlist = nlist]
  show ?thesis
    using row assms(2) by (simp only: baseCompute_nth Ql_of_Qlm_map option.map simp_thms)
qed

theorem base_Ql_formula_witness:
  "(\<forall>t p. length [complex_of_real t, 0, 1, 0, complex_of_real p] = 2 * 2 + 1) \<and>
   (0::nat) < 2 \<and>
   count_list (concat [[0], [1::nat]]) 0 = 1 \<and>
   shell_bonds 0 2
     (\<lambda>i. if i = 0 then [\<lparr> bond_j = 1, bond_r = 1, bond_theta = 1, bond_phi = 2 \<rparr>]
           else [\<lparr> bond_j = 0, bond_r = 3, bond_theta = 1, bond_phi = 2 \<rparr>]) 0 =
     [\<lparr> bond_j = 1, bond_r = 1, bond_theta = 1, bond_phi = 2 \<rparr>] \<and>
   compute_Qlm (\<lambda>t p. [complex_of_real t, 0, 1, 0, complex_of_real p]) 0 2 2 2
     (\<lambda>i. if i = 0 then [\<lparr> bond_j = 1, bond_r = 1, bond_theta = 1, bond_phi = 2 \<rparr>]
           else [\<lparr> bond_j = 0, bond_r = 3, bond_theta = 1, bond_phi = 2 \<rparr>])
     [[0], [1]] ! 0 = Some [1, 0, 1, 0, 2] \<and>
   baseCompute (\<lambda>t p. [complex_of_real t, 0, 1, 0, complex_of_real p]) 0 2 2 2
     (\<lambda>i. if i = 0 then [\<lparr> bond_j = 1, bond_r = 1, bond_theta = 1, bond_phi = 2 \<rparr>]
           else [\<lparr> bond_j = 0, bond_r = 3, bond_theta = 1, bond_phi = 2 \<rparr>])
     [[0], [1]] ! 0 = Some (sqrt (4 * pi / 5 * 6))"
proof -
  let ?Y = "\<lambda>t p. [complex_of_real t, 0, 1, 0, complex_of_real p]"
  let ?nl = "\<lambda>i::nat. if i = 0 then [\<lparr> bond_j = 1, bond_r = 1, bond_theta = 1, bond_phi = 2 \<rparr>]
           else [\<lparr> bond_j = 0::nat, bond_r = 3, bond_theta = 1, bond_phi = 2 \<rparr>]"
  have Y: "\<forall>t p. length (?Y t p) = 2 * 2 + 1" by simp
  have i: "(0::nat) < 2" by simp
  have once: "count_list (concat [[0], [1::nat]]) 0 = 1" by simp
  have bonds: "shell_bonds 0 2 ?nl 0 = [\<lparr> bond_j = 1, bond_r = 1, bond_theta = 1, bond_phi = 2 \<rparr>]"
    by (simp add: shell_bonds_def in_shell_def)
  have five: "[0 ..< 5] = [0, 1, 2, 3, 4::nat]"
    by (simp add: upt_conv_Cons)
  from base_Ql_formula [OF Y i once, of 0 2 ?nl]
  have "compute_Qlm ?Y 0 2 2 2 ?nl [[0], [1]] ! 0 = Some [1, 0, 1, 0, 2] \<and>
        baseCompute ?Y 0 2 2 2 ?nl [[0], [1]] ! 0 = Some (sqrt (4 * pi / 5 * 6))"
    by (simp add: bonds five mean_Ylm_def)
  with Y i once bonds show ?thesis by simp
qed

lemma accumulate_bond_other:
  "k \<noteq> i \<or> \<not> in_shell rmin rmax b \<Longrightarrow>
   fst (accumulate_bond Ylm rmin rmax i b buf) ! k = fst buf ! k \<and>
   snd (accumulate_bond Ylm rmin rmax i b buf) ! k = snd buf ! k"
  by (auto simp: accumulate_bond_def)

lemma fold_accumulate_bond_other:
  "k \<noteq> i \<or> (\<forall>b\<in>set bs. \<not> in_shell rmin rmax b) \<Longrightarrow>
   fst (fold (accumulate_bond Ylm rmin rmax i) bs buf) ! k = fst buf ! k \<and>
   snd (fold (accumulate_bond Ylm rmin rmax i) bs buf) ! k = snd buf ! k"
proof (induction bs arbitrary: buf)
  case Nil
  show ?case by simp
next
  case (Cons b bs)
  have "k \<noteq> i \<or> \<not> in_shell rmin rmax b" and "k \<noteq> i \<or> (\<forall>b\<in>set bs. \<not> in_shell rmin rmax b)"
    using Cons.prems by auto
  then show ?case
    using Cons.IH [of "accumulate_bond Ylm rmin rmax i b buf"]
      accumulate_bond_other [of k i rmin rmax b Ylm buf]
    by simp
qed

lemma accumulate_particle_no_bonds:
  assumes "shell_bonds rmin rmax nlist k = []"
  shows "fst (accumulate_particle Ylm rmin rmax nlist i buf) ! k = fst buf ! k \<and>
         snd (accumulate_particle Ylm rmin rmax nlist i buf) ! k = snd buf ! k"
proof -
  have "k \<noteq> i \<or> (\<forall>b\<in>set (nlist i). \<not> in_shell rmin rmax b)"
    using assms by (auto simp: shell_bonds_def filter_empty_conv)
  then show ?thesis
    unfolding accumulate_particle_def by (rule fold_accumulate_bond_other)
qed

lemma BondAccumulator_no_bonds:
  assumes "k < Np" and "shell_bonds rmin rmax nlist k = []"
  shows "fst (BondAccumulator Ylm rmin rmax l Np nlist part) ! k = replicate (2 * l + 1) 0 \<and>
         snd (BondAccumulator Ylm rmin rmax l Np nlist part) ! k = 0"
proof -
  have "fst (fold (accumulate_particle Ylm rmin rmax nlist) part buf) ! k = fst buf ! k \<and>
        snd (fold (accumulate_particle Ylm rmin rmax nlist) part buf) ! k = snd buf ! k" for buf
  proof (induction part arbitrary: buf)
    case Nil
    show ?case by simp
  next
    case (Cons i part)
    show ?case
      using Cons [of "accumulate_particle Ylm rmin rmax nlist i buf"]
        accumulate_particle_no_bonds [OF assms(2), of Ylm i buf]
      by simp
  qed
  then show ?thesis
    using assms(1) by (simp add: BondAccumulator_def empty_buffer_def del: replicate.simps)
qed

lemma sum_rows_zero:
  "\<forall>r\<in>set rows. r = replicate n 0 \<Longrightarrow> sum_rows n rows = replicate n 0"
proof -
  have "fold (\<lambda>row acc. map2 (+) acc row) rows (replicate n (0 :: complex)) = replicate n 0"
    if "\<forall>r\<in>set rows. r = replicate n 0"
    using that by (induction rows) (simp_all add: zip_replicate del: replicate.simps)
  then show "\<forall>r\<in>set rows. r = replicate n 0 \<Longrightarrow> sum_rows n rows = replicate n 0"
    by (simp add: sum_rows_def)
qed

lemma sum_list_zero:
  "(\<And>v. v \<in> set vs \<Longrightarrow> f v = 0) \<Longrightarrow> (\<Sum>v\<leftarrow>vs. f v) = (0 :: 'a :: comm_monoid_add)"
  by (induction vs) simp_all

lemma Ql_of_Qlm_zero: "Ql_of_Qlm l (replicate n 0) = 0"
  by (simp add: Ql_of_Qlm_def sum_list_replicate)

lemma Wl_of_Qlm_zero: "Wl_of_Qlm w3j l (replicate (2 * l + 1) 0) = 0"
proof -
  have "(case v of (m1, m2) \<Rightarrow>
          if \<bar>m1 + m2\<bar> \<le> int l
          then of_real (w3j m1 m2) * replicate (2 * l + 1) (0 :: complex) ! nat (m1 + int l)
                 * replicate (2 * l + 1) 0 ! nat (m2 + int l)
                 * replicate (2 * l + 1) 0 ! nat (int l - m1 - m2)
          else 0) = 0"
    if "v \<in> set (List.product [- int l .. int l] [- int l .. int l])" for v
  proof -
    obtain m1 m2 where v: "v = (m1, m2)" by (cases v)
    with that have "- int l \<le> m1" and "m1 \<le> int l" by auto
    then have "nat (m1 + int l) < 2 * l + 1" by linarith
    then have "replicate (2 * l + 1) (0 :: complex) ! nat (m1 + int l) = 0"
      by (simp del: replicate.simps)
    then show ?thesis by (simp add: v del: replicate.simps)
  qed
  then show ?thesis
    unfolding Wl_of_Qlm_def by (rule sum_list_zero)
qed

text \<open>
  Claim C4.  For a particle \<open>i\<close> with no bond in \<open>[rmin, rmax)\<close>: in the buffer of every
  worker the row of \<open>i\<close> is all zero and its bond count is zero, the total count is zero,
  the division is not attempted and \<open>Qlm(i)\<close> is the zero row, and \<open>Ql(i) = 0\<close> and
  \<open>Wl(i) = 0\<close>.  For no particle does the reduction divide by a zero count: its result
  is defined for all of them.
\<close>

theorem zero_bond_particle:
  assumes "i < Np" and "shell_bonds rmin rmax nlist i = []"
  shows "(\<forall>part\<in>set parts.
            fst (BondAccumulator Ylm rmin rmax l Np nlist part) ! i = replicate (2 * l + 1) 0 \<and>
            snd (BondAccumulator Ylm rmin rmax l Np nlist part) ! i = 0) \<and>
         sum_list (map (\<lambda>buf. snd buf ! i)
           (map (BondAccumulator Ylm rmin rmax l Np nlist) parts)) = 0 \<and>
         compute_Qlm Ylm rmin rmax l Np nlist parts ! i = Some (replicate (2 * l + 1) 0) \<and>
         baseCompute Ylm rmin rmax l Np nlist parts ! i = Some 0 \<and>
         computeWl w3j Ylm rmin rmax l Np nlist parts ! i = Some 0 \<and>
         (\<forall>k<Np. compute_Qlm Ylm rmin rmax l Np nlist parts ! k \<noteq> None)"
proof -
  let ?bufs = "map (BondAccumulator Ylm rmin rmax l Np nlist) parts"
  have worker: "fst (BondAccumulator Ylm rmin rmax l Np nlist part) ! i = replicate (2 * l + 1) 0 \<and>
      snd (BondAccumulator Ylm rmin rmax l Np nlist part) ! i = 0" for part
    using assms by (rule BondAccumulator_no_bonds)
  have rows: "sum_rows (2 * l + 1) (map (\<lambda>buf. fst buf ! i) ?bufs) = replicate (2 * l + 1) 0"
    using worker by (intro sum_rows_zero) auto
  have count: "sum_list (map (\<lambda>buf. snd buf ! i) ?bufs) = 0"
    using worker by (simp add: comp_def)
  have qlm: "compute_Qlm Ylm rmin rmax l Np nlist parts ! i = Some (replicate (2 * l + 1) 0)"
    using assms(1) rows count
    by (simp add: compute_Qlm_def reduce_nth average_row_def del: replicate.simps)
  have ql: "baseCompute Ylm rmin rmax l Np nlist parts ! i = Some 0"
    using assms(1) qlm by (simp only: baseCompute_nth option.map Ql_of_Qlm_zero)
  have wl: "computeWl w3j Ylm rmin rmax l Np nlist parts ! i = Some 0"
    using assms(1) qlm by (simp only: computeWl_nth option.map Wl_of_Qlm_zero)
  from worker count qlm ql wl compute_Qlm_defined show ?thesis
    by blast
qed

theorem zero_bond_particle_witness:
  "(1::nat) < 2 \<and>
   shell_bonds 0 2
     (\<lambda>i. if i = 0 then [\<lparr> bond_j = 1, bond_r = 1, bond_theta = 1, bond_phi = 2 \<rparr>]
           else [\<lparr> bond_j = 0, bond_r = 3, bond_theta = 1, bond_phi = 2 \<rparr>]) 1 = [] \<and>
   fst (BondAccumulator (\<lambda>t p. [complex_of_real t, 0, 1, 0, complex_of_real p]) 0 2 2 2
     (\<lambda>i. if i = 0 then [\<lparr> bond_j = 1, bond_r = 1, bond_theta = 1, bond_phi = 2 \<rparr>]
           else [\<lparr> bond_j = 0, bond_r = 3, bond_theta = 1, bond_phi = 2 \<rparr>]) [1]) ! 1 =
     [0, 0, 0, 0, 0] \<and>
   snd (BondAccumulator (\<lambda>t p. [complex_of_real t, 0, 1, 0, complex_of_real p]) 0 2 2 2
     (\<lambda>i. if i = 0 then [\<lparr> bond_j = 1, bond_r = 1, bond_theta = 1, bond_phi = 2 \<rparr>]
           else [\<lparr> bond_j = 0, bond_r = 3, bond_theta = 1, bond_phi = 2 \<rparr>]) [1]) ! 1 = 0 \<and>
   compute_Qlm (\<lambda>t p. [complex_of_real t, 0, 1, 0, complex_of_real p]) 0 2 2 2
     (\<lambda>i. if i = 0 then [\<lparr> bond_j = 1, bond_r = 1, bond_theta = 1, bond_phi = 2 \<rparr>]
           else [\<lparr> bond_j = 0, bond_r = 3, bond_theta = 1, bond_phi = 2 \<rparr>])
     [[0], [1]] ! 1 = Some [0, 0, 0, 0, 0] \<and>
   baseCompute (\<lambda>t p. [complex_of_real t, 0, 1, 0, complex_of_real p]) 0 2 2 2
     (\<lambda>i. if i = 0 then [\<lparr> bond_j = 1, bond_r = 1, bond_theta = 1, bond_phi = 2 \<rparr>]
           else [\<lparr> bond_j = 0, bond_r = 3, bond_theta = 1, bond_phi = 2 \<rparr>])
     [[0], [1]] ! 1 = Some 0 \<and>
   computeWl (\<lambda>m1 m2. 1) (\<lambda>t p. [complex_of_real t, 0, 1, 0, complex_of_real p]) 0 2 2 2
     (\<lambda>i. if i = 0 then [\<lparr> bond_j = 1, bond_r = 1, bond_theta = 1, bond_phi = 2 \<rparr>]
           else [\<lparr> bond_j = 0, bond_r = 3, bond_theta = 1, bond_phi = 2 \<rparr>])
     [[0], [1]] ! 1 = Some 0"
proof -
  let ?Y = "\<lambda>t p. [complex_of_real t, 0, 1, 0, complex_of_real p]"
  let ?nl = "\<lambda>i::nat. if i = 0 then [\<lparr> bond_j = 1, bond_r = 1, bond_theta = 1, bond_phi = 2 \<rparr>]
           else [\<lparr> bond_j = 0::nat, bond_r = 3, bond_theta = 1, bond_phi = 2 \<rparr>]"
  have i: "(1::nat) < 2" by simp
  have none: "shell_bonds 0 2 ?nl 1 = []"
    by (simp add: shell_bonds_def in_shell_def)
  have zeros: "replicate (2 * 2 + 1) (0::complex) = [0, 0, 0, 0, 0]"
    by (simp add: numeral_eq_Suc)
  from zero_bond_particle [OF i none, of "[[0], [1]]" ?Y 2 "\<lambda>m1 m2. 1"]
  have "fst (BondAccumulator ?Y 0 2 2 2 ?nl [1]) ! 1 = [0, 0, 0, 0, 0] \<and>
        snd (BondAccumulator ?Y 0 2 2 2 ?nl [1]) ! 1 = 0 \<and>
        compute_Qlm ?Y 0 2 2 2 ?nl [[0], [1]] ! 1 = Some [0, 0, 0, 0, 0] \<and>
        baseCompute ?Y 0 2 2 2 ?nl [[0], [1]] ! 1 = Some 0 \<and>
        computeWl (\<lambda>m1 m2. 1) ?Y 0 2 2 2 ?nl [[0], [1]] ! 1 = Some 0"
    by (simp only: zeros list.set ball_simps insert_iff)
  with i none show ?thesis by simp
qed

section \<open>Construction of a PMFTXYTM2D instance\<close>

lemma single_bin_width:
  "0 < r \<Longrightarrow> fgt (fdiv (fmul (FNum 2) (FNum r)) (float_of_uint 1)) (FNum r)"
  by (simp add: fgt_def float_of_uint_def)

lemma uint_ge_2: "\<not> n < 1 \<Longrightarrow> n \<noteq> 1 \<Longrightarrow> (2::uint) \<le> n"
  by unat_arith

lemma PMFTXYTM2D_single_x:
  "0 < r \<Longrightarrow>
   \<exists>msg. PMFTXYTM2D (FNum r) max_y max_T 1 nbins_y nbins_T u = Inl (invalid_argument msg)"
  using single_bin_width [of r] by (simp add: PMFTXYTM2D_def Let_def)

lemma PMFTXYTM2D_single_y:
  "0 < r \<Longrightarrow>
   \<exists>msg. PMFTXYTM2D max_x (FNum r) max_T nbins_x 1 nbins_T u = Inl (invalid_argument msg)"
  using single_bin_width [of r] by (simp add: PMFTXYTM2D_def Let_def)

lemma PMFTXYTM2D_Inr_nbins:
  assumes "PMFTXYTM2D max_x max_y max_T nbins_x nbins_y nbins_T u = Inr p"
  shows "\<not> nbins_x < 1 \<and> \<not> nbins_y < 1 \<and> \<not> nbins_T < 1"
  using assms by (simp add: PMFTXYTM2D_def Let_def split: if_splits)

text \<open>
  Claim C9, amended.  For every finite \<open>max_x > 0\<close> the construction with \<open>nbins_x = 1\<close>
  throws \<open>invalid_argument\<close>, whatever the other arguments are, because the width
  \<open>2 * max_x / 1\<close> exceeds \<open>max_x\<close>; likewise for \<open>max_y\<close> and \<open>nbins_y\<close>.  So a
  construction that succeeds with a finite positive \<open>max_x\<close> (\<open>max_y\<close>) has at least 2 bins
  in that dimension.
\<close>

theorem single_bin_throws:
  "(0 < r \<longrightarrow>
      (\<exists>msg. PMFTXYTM2D (FNum r) max_y max_T 1 nbins_y nbins_T u = Inl (invalid_argument msg)) \<and>
      (\<exists>msg. PMFTXYTM2D max_x (FNum r) max_T nbins_x 1 nbins_T u = Inl (invalid_argument msg))) \<and>
   (0 < r \<and> PMFTXYTM2D (FNum r) max_y max_T nbins_x nbins_y nbins_T u = Inr p \<longrightarrow>
      2 \<le> nbins_x) \<and>
   (0 < r \<and> PMFTXYTM2D max_x (FNum r) max_T nbins_x nbins_y nbins_T u = Inr p \<longrightarrow>
      2 \<le> nbins_y)"
proof (intro conjI impI)
  assume "0 < r"
  then show "\<exists>msg. PMFTXYTM2D (FNum r) max_y max_T 1 nbins_y nbins_T u =
      Inl (invalid_argument msg)"
    by (rule PMFTXYTM2D_single_x)
next
  assume "0 < r"
  then show "\<exists>msg. PMFTXYTM2D max_x (FNum r) max_T nbins_x 1 nbins_T u =
      Inl (invalid_argument msg)"
    by (rule PMFTXYTM2D_single_y)
next
  assume a: "0 < r \<and> PMFTXYTM2D (FNum r) max_y max_T nbins_x nbins_y nbins_T u = Inr p"
  then have "nbins_x \<noteq> 1"
    using PMFTXYTM2D_single_x [of r max_y max_T nbins_y nbins_T u] by auto
  moreover have "\<not> nbins_x < 1"
    using a PMFTXYTM2D_Inr_nbins by blast
  ultimately show "2 \<le> nbins_x" by (simp add: uint_ge_2)
next
  assume a: "0 < r \<and> PMFTXYTM2D max_x (FNum r) max_T nbins_x nbins_y nbins_T u = Inr p"
  then have "nbins_y \<noteq> 1"
    using PMFTXYTM2D_single_y [of r max_x max_T nbins_x nbins_T u] by auto
  moreover have "\<not> nbins_y < 1"
    using a PMFTXYTM2D_Inr_nbins by blast
  ultimately show "2 \<le> nbins_y" by (simp add: uint_ge_2)
qed

text \<open>
  Claim C9 as stated fails at two inputs.  With \<open>max_x\<close> the positive infinity and
  \<open>nbins_x = 1\<close> the width is infinite too, the test \<open>m_dx > max_x\<close> is false and the
  construction succeeds.  In the third dimension the width is computed from the member
  \<open>m_max_T\<close>, which no initialiser sets: when it happens to hold 0, the construction with
  \<open>max_T = 1\<close> and \<open>nbins_T = 1\<close> succeeds.
\<close>

theorem single_bin_counterexample:
  "flt (FNum 0) FPosInf \<and>
   \<not> isl (PMFTXYTM2D FPosInf (FNum 1) (FNum 1) 1 2 2 (FNum 1)) \<and>
   flt (FNum 0) (FNum 1) \<and>
   \<not> isl (PMFTXYTM2D (FNum 1) (FNum 1) (FNum 1) 2 2 1 (FNum 0))"
  by (simp add: PMFTXYTM2D_def fgt_def float_of_uint_def Let_def new_zeroed_def
      memset_zero_def size_t_bytes_def)

theorem single_bin_throws_witness:
  "(0::real) < 1 \<and>
   (\<exists>msg. PMFTXYTM2D (FNum 1) (FNum 1) (FNum 1) 1 2 2 (FNum 1) = Inl (invalid_argument msg)) \<and>
   (\<exists>msg. PMFTXYTM2D (FNum 1) (FNum 1) (FNum 1) 2 1 2 (FNum 1) = Inl (invalid_argument msg)) \<and>
   PMFTXYTM2D (FNum 1) (FNum 1) (FNum 1) 2 2 2 (FNum 1) =
     Inr \<lparr> m_max_x = FNum 1, m_max_y = FNum 1, m_max_T = FNum 1,
           m_nbins_x = 2, m_nbins_y = 2, m_nbins_T = 2,
           m_dx = FNum 1, m_dy = FNum 1, m_dT = FNum 1,
           m_pcf_array = replicate 8 0, m_local_pcf_array = [] \<rparr> \<and>
   (2::uint) \<le> 2"
proof -
  have ok: "PMFTXYTM2D (FNum 1) (FNum 1) (FNum 1) 2 2 2 (FNum 1) =
     Inr \<lparr> m_max_x = FNum 1, m_max_y = FNum 1, m_max_T = FNum 1,
           m_nbins_x = 2, m_nbins_y = 2, m_nbins_T = 2,
           m_dx = FNum 1, m_dy = FNum 1, m_dT = FNum 1,
           m_pcf_array = replicate 8 0, m_local_pcf_array = [] \<rparr>"
    by (simp add: PMFTXYTM2D_def fgt_def float_of_uint_def Let_def new_zeroed_def
        memset_zero_def size_t_bytes_def)
  have pos: "(0::real) < 1" by simp
  from ok pos
    single_bin_throws [where r = 1 and max_x = "FNum 1" and max_y = "FNum 1"
      and max_T = "FNum 1" and nbins_x = 2 and nbins_y = 2 and nbins_T = 2 and u = "FNum 1"]
  show ?thesis by blast
qed

section \<open>Binning a pair\<close>

lemma increment_bin_cases:
  "n < length hist \<Longrightarrow> increment_bin n hist = Inr (hist[n := hist ! n + 1])"
  by (simp add: increment_bin_def)

lemma bin_pair_skip:
  "flt (pair_rsq pr) (FNum (1 / 10 ^ 6)) \<Longrightarrow> bin_pair b_i p pr hist = Inr hist"
  by (simp add: bin_pair_def Let_def)

lemma bin_pair_discard:
  "\<not> (bin_index (fdiv (FNum 1) (m_dx p)) (pair_x pr) < m_nbins_x p \<and>
       bin_index (fdiv (FNum 1) (m_dy p)) (pair_y pr) < m_nbins_y p \<and>
       bin_index (fdiv (FNum 1) (m_dT p)) (pair_T pr) < m_nbins_T p) \<Longrightarrow>
   bin_pair b_i p pr hist = Inr hist"
  by (auto simp: bin_pair_def Let_def)

lemma bin_pair_binned:
  "\<not> flt (pair_rsq pr) (FNum (1 / 10 ^ 6)) \<Longrightarrow>
   bin_index (fdiv (FNum 1) (m_dx p)) (pair_x pr) < m_nbins_x p \<and>
   bin_index (fdiv (FNum 1) (m_dy p)) (pair_y pr) < m_nbins_y p \<and>
   bin_index (fdiv (FNum 1) (m_dT p)) (pair_T pr) < m_nbins_T p \<Longrightarrow>
   bin_pair b_i p pr hist =
     increment_bin
       (unat (b_i (bin_index (fdiv (FNum 1) (m_dx p)) (pair_x pr))
                  (bin_index (fdiv (FNum 1) (m_dy p)) (pair_y pr))
                  (bin_index (fdiv (FNum 1) (m_dT p)) (pair_T pr)))) hist"
  by (simp add: bin_pair_def Let_def)

lemma bin_pair_result:
  assumes fits: "indexer_fits b_i p (length hist)"
  shows "\<exists>hist'. bin_pair b_i p pr hist = Inr hist' \<and>
            (hist' = hist \<or> (\<exists>n<length hist. hist' = hist[n := hist ! n + 1]))"
proof -
  let ?ix = "bin_index (fdiv (FNum 1) (m_dx p)) (pair_x pr)"
  let ?iy = "bin_index (fdiv (FNum 1) (m_dy p)) (pair_y pr)"
  let ?iT = "bin_index (fdiv (FNum 1) (m_dT p)) (pair_T pr)"
  show ?thesis
  proof (cases "\<not> flt (pair_rsq pr) (FNum (1 / 10 ^ 6)) \<and>
      (?ix < m_nbins_x p \<and> ?iy < m_nbins_y p \<and> ?iT < m_nbins_T p)")
    case True
    then have below: "unat (b_i ?ix ?iy ?iT) < length hist"
      using fits by (simp add: indexer_fits_def)
    have "bin_pair b_i p pr hist = increment_bin (unat (b_i ?ix ?iy ?iT)) hist"
      using True by (simp add: bin_pair_binned)
    with below show ?thesis
      by (auto simp: increment_bin_cases)
  next
    case False
    then have "bin_pair b_i p pr hist = Inr hist"
      using bin_pair_skip bin_pair_discard by blast
    then show ?thesis by simp
  qed
qed

lemma bin_pair_length:
  assumes "indexer_fits b_i p (length hist)" and "bin_pair b_i p pr hist = Inr hist'"
  shows "length hist' = length hist"
  using bin_pair_result [OF assms(1), of pr] assms(2) by auto

lemma for_each_bin_pair:
  "indexer_fits b_i p (length hist) \<Longrightarrow>
   \<exists>hist'. for_each pairs (bin_pair b_i p) hist = Inr hist' \<and> length hist' = length hist"
proof (induction pairs arbitrary: hist)
  case Nil
  then show ?case by simp
next
  case (Cons pr pairs)
  obtain h where h: "bin_pair b_i p pr hist = Inr h"
    using bin_pair_result [OF Cons.prems, of pr] by blast
  then have len: "length h = length hist"
    using Cons.prems bin_pair_length by blast
  with Cons.prems have "indexer_fits b_i p (length h)" by simp
  from Cons.IH [OF this] h len show ?case by simp
qed

lemma unat_product_nowrap:
  fixes a b c :: uint
  assumes "unat a * unat b * unat c < 2 ^ 32"
  shows "unat (a * b * c) = unat a * unat b * unat c"
  using assms by (simp add: unat_word_ariths mod_mult_left_eq)

lemma new_zeroed_nowrap:
  assumes "unat a * unat b * unat c < 2 ^ 32"
  shows "new_zeroed a b c = Inr (replicate (unat a * unat b * unat c) 0)"
proof -
  have "4 * unat a * unat b * unat c < 2 ^ 64"
    using assms by simp
  then have "size_t_bytes a b c = 4 * (unat a * unat b * unat c)"
    by (simp add: size_t_bytes_def mult.assoc)
  then show ?thesis
    using unat_product_nowrap [OF assms] by (simp add: new_zeroed_def memset_zero_def)
qed

text \<open>
  A whole call never leaves the histogram of its thread, whether it finds one or
  allocates it, as long as the number of bins does not wrap around.
\<close>

lemma ComputePMFTXYTM2D_in_bounds:
  assumes "unat (m_nbins_x p) * unat (m_nbins_y p) * unat (m_nbins_T p) < 2 ^ 32"
    and "indexer_fits b_i p (unat (m_nbins_x p) * unat (m_nbins_y p) * unat (m_nbins_T p))"
    and "local_hist = None \<or>
         (\<exists>h. local_hist = Some h \<and>
              length h = unat (m_nbins_x p) * unat (m_nbins_y p) * unat (m_nbins_T p))"
  shows "\<exists>hist'. ComputePMFTXYTM2D b_i p pairs local_hist = Inr hist' \<and>
           length hist' = unat (m_nbins_x p) * unat (m_nbins_y p) * unat (m_nbins_T p)"
proof -
  let ?n = "unat (m_nbins_x p) * unat (m_nbins_y p) * unat (m_nbins_T p)"
  obtain h where h: "(case local_hist of
              None \<Rightarrow> new_zeroed (m_nbins_x p) (m_nbins_y p) (m_nbins_T p)
            | Some hist \<Rightarrow> Inr hist) = Inr h" and len: "length h = ?n"
    using assms(3) new_zeroed_nowrap [OF assms(1)] by auto
  with assms(2) have "indexer_fits b_i p (length h)" by simp
  from for_each_bin_pair [OF this, of pairs] h len show ?thesis
    by (simp add: ComputePMFTXYTM2D_def)
qed

text \<open>
  The indexer of the examples fits a histogram of \<open>w * h * d\<close> entries as long as that
  product does not wrap around.
\<close>

lemma Index3D_below:
  fixes w h d i j k :: uint
  assumes "unat w * unat h * unat d < 2 ^ 32" and "i < w" and "j < h" and "k < d"
  shows "unat (Index3D w h d i j k) < unat w * unat h * unat d"
proof -
  have i: "unat i < unat w" and j: "unat j < unat h" and k: "unat k < unat d"
    using assms by (simp_all add: word_less_nat_alt)
  have "unat k * unat w * unat h + unat j * unat w + unat i
          < unat k * unat w * unat h + unat j * unat w + unat w"
    using i by simp
  also have "\<dots> = unat k * unat w * unat h + (unat j + 1) * unat w"
    by (simp add: algebra_simps)
  also have "\<dots> \<le> unat k * unat w * unat h + unat h * unat w"
    using j mult_le_mono1 [of "unat j + 1" "unat h" "unat w"] by simp
  also have "\<dots> = (unat k + 1) * (unat w * unat h)"
    by (simp add: algebra_simps)
  also have "\<dots> \<le> unat d * (unat w * unat h)"
    using k mult_le_mono1 [of "unat k + 1" "unat d" "unat w * unat h"] by simp
  finally have bound:
    "unat k * unat w * unat h + unat j * unat w + unat i < unat w * unat h * unat d"
    by (simp add: algebra_simps)
  have "unat (Index3D w h d i j k) \<le> unat k * unat w * unat h + unat j * unat w + unat i"
    unfolding Index3D_def
    by (simp add: unat_word_ariths) (meson add_mono le_trans mod_less_eq_dividend mult_le_mono1 order_refl)
  with bound show ?thesis by simp
qed

lemma Index3D_fits:
  assumes "unat (m_nbins_x p) * unat (m_nbins_y p) * unat (m_nbins_T p) < 2 ^ 32"
  shows "indexer_fits (Index3D (m_nbins_x p) (m_nbins_y p) (m_nbins_T p)) p
           (unat (m_nbins_x p) * unat (m_nbins_y p) * unat (m_nbins_T p))"
  using Index3D_below [OF assms] by (simp add: indexer_fits_def)

text \<open>
  Claim C10 as stated fails when the number of bins wraps around.  With
  \<open>2^31\<close> bins in \<open>x\<close> and in \<open>y\<close> and 4 in \<open>T\<close> the constructor succeeds: the product of the
  bin counts is 0 as an \<open>unsigned int\<close>, and so is the byte count of the \<open>memset\<close> in
  \<open>size_t\<close>.  The histogram of a thread is allocated with no entry, the pair with
  \<open>x = y = T = 0\<close> passes the guard with the bins \<open>(0, 0, 0)\<close>, and its increment goes past
  the end of the histogram.
\<close>

theorem bin_pair_wrap_counterexample:
  "PMFTXYTM2D (FNum 1) (FNum 1) (FNum 1) 0x80000000 0x80000000 4 (FNum 1) =
     Inr \<lparr> m_max_x = FNum 1, m_max_y = FNum 1, m_max_T = FNum 1,
        m_nbins_x = 0x80000000, m_nbins_y = 0x80000000, m_nbins_T = 4,
        m_dx = FNum (1 / 2 ^ 30), m_dy = FNum (1 / 2 ^ 30), m_dT = FNum (1 / 2),
        m_pcf_array = [], m_local_pcf_array = [] \<rparr> \<and>
   new_zeroed 0x80000000 0x80000000 4 = Inr [] \<and>
   bin_index (fdiv (FNum 1) (FNum (1 / 2 ^ 30))) (FNum 0) = 0 \<and>
   bin_index (fdiv (FNum 1) (FNum (1 / 2))) (FNum 0) = 0 \<and>
   ComputePMFTXYTM2D (Index3D 0x80000000 0x80000000 4)
     \<lparr> m_max_x = FNum 1, m_max_y = FNum 1, m_max_T = FNum 1,
        m_nbins_x = 0x80000000, m_nbins_y = 0x80000000, m_nbins_T = 4,
        m_dx = FNum (1 / 2 ^ 30), m_dy = FNum (1 / 2 ^ 30), m_dT = FNum (1 / 2),
        m_pcf_array = [], m_local_pcf_array = [] \<rparr>
     [\<lparr> pair_rsq = FNum 1, pair_x = FNum 0, pair_y = FNum 0, pair_T = FNum 0 \<rparr>] None =
     Inl out_of_bounds"
  by (simp add: PMFTXYTM2D_def fgt_def float_of_uint_def Let_def new_zeroed_def
      memset_zero_def size_t_bytes_def ComputePMFTXYTM2D_def bin_pair_def bin_index_def
      cvtt_ss2si_def increment_bin_def)

text \<open>
  Claim C10, amended.  Every pair either leaves the histogram of the thread as it is or
  increments exactly one of its entries: a pair with \<open>rsq < 1e-6\<close> is skipped, and a pair one
  of whose bins is not below its bin count is discarded.  No increment goes outside the
  histogram provided the indexer maps the triples of bins that pass the guard below the
  number of its entries; and when \<open>nbins_x * nbins_y * nbins_T\<close> is below \<open>2^32\<close>, the
  histogram that a thread allocates has that many entries and the indexer with the first
  index running fastest maps them so.
\<close>

theorem bin_pair_in_bounds:
  "(indexer_fits b_i p (length hist) \<longrightarrow>
      (\<exists>hist'. bin_pair b_i p pr hist = Inr hist' \<and>
         (hist' = hist \<or> (\<exists>n<length hist. hist' = hist[n := hist ! n + 1])))) \<and>
   (flt (pair_rsq pr) (FNum (1 / 10 ^ 6)) \<longrightarrow> bin_pair b_i p pr hist = Inr hist) \<and>
   (\<not> (bin_index (fdiv (FNum 1) (m_dx p)) (pair_x pr) < m_nbins_x p \<and>
       bin_index (fdiv (FNum 1) (m_dy p)) (pair_y pr) < m_nbins_y p \<and>
       bin_index (fdiv (FNum 1) (m_dT p)) (pair_T pr) < m_nbins_T p) \<longrightarrow>
      bin_pair b_i p pr hist = Inr hist) \<and>
   (unat (m_nbins_x p) * unat (m_nbins_y p) * unat (m_nbins_T p) < 2 ^ 32 \<longrightarrow>
      new_zeroed (m_nbins_x p) (m_nbins_y p) (m_nbins_T p) =
        Inr (replicate (unat (m_nbins_x p) * unat (m_nbins_y p) * unat (m_nbins_T p)) 0) \<and>
      indexer_fits (Index3D (m_nbins_x p) (m_nbins_y p) (m_nbins_T p)) p
        (unat (m_nbins_x p) * unat (m_nbins_y p) * unat (m_nbins_T p)))"
  using bin_pair_result [of b_i p hist pr] bin_pair_skip [of pr b_i p hist]
    bin_pair_discard [of p pr b_i hist] new_zeroed_nowrap [of "m_nbins_x p" "m_nbins_y p" "m_nbins_T p"]
    Index3D_fits [of p]
  by blast

theorem bin_pair_in_bounds_witness:
  "indexer_fits (Index3D 2 2 2)
      \<lparr> m_max_x = FNum 1, m_max_y = FNum 1, m_max_T = FNum 1,
        m_nbins_x = 2, m_nbins_y = 2, m_nbins_T = 2,
        m_dx = FNum 1, m_dy = FNum 1, m_dT = FNum 1,
        m_pcf_array = replicate 8 0, m_local_pcf_array = [] \<rparr> (length ([0, 0, 0, 0, 0, 0, 0, 0] :: uint list)) \<and>
   (\<exists>hist'. bin_pair (Index3D 2 2 2)
      \<lparr> m_max_x = FNum 1, m_max_y = FNum 1, m_max_T = FNum 1,
        m_nbins_x = 2, m_nbins_y = 2, m_nbins_T = 2,
        m_dx = FNum 1, m_dy = FNum 1, m_dT = FNum 1,
        m_pcf_array = replicate 8 0, m_local_pcf_array = [] \<rparr>
      \<lparr> pair_rsq = FNum 1, pair_x = FNum (1 / 2), pair_y = FNum (3 / 2),
        pair_T = FNum (3 / 2) \<rparr> [0, 0, 0, 0, 0, 0, 0, 0] = Inr hist' \<and>
      (hist' = [0, 0, 0, 0, 0, 0, 0, 0] \<or>
       (\<exists>n<length ([0, 0, 0, 0, 0, 0, 0, 0] :: uint list).
          hist' = [0, 0, 0, 0, 0, 0, 0, 0][n := [0, 0, 0, 0, 0, 0, 0, 0] ! n + 1]))) \<and>
   bin_pair (Index3D 2 2 2)
      \<lparr> m_max_x = FNum 1, m_max_y = FNum 1, m_max_T = FNum 1,
        m_nbins_x = 2, m_nbins_y = 2, m_nbins_T = 2,
        m_dx = FNum 1, m_dy = FNum 1, m_dT = FNum 1,
        m_pcf_array = replicate 8 0, m_local_pcf_array = [] \<rparr>
      \<lparr> pair_rsq = FNum 1, pair_x = FNum (1 / 2), pair_y = FNum (3 / 2),
        pair_T = FNum (3 / 2) \<rparr> [0, 0, 0, 0, 0, 0, 0, 0] = Inr [0, 0, 0, 0, 0, 0, 1, 0] \<and>
   flt (FNum 0) (FNum (1 / 10 ^ 6)) \<and>
   bin_pair (Index3D 2 2 2)
      \<lparr> m_max_x = FNum 1, m_max_y = FNum 1, m_max_T = FNum 1,
        m_nbins_x = 2, m_nbins_y = 2, m_nbins_T = 2,
        m_dx = FNum 1, m_dy = FNum 1, m_dT = FNum 1,
        m_pcf_array = replicate 8 0, m_local_pcf_array = [] \<rparr>
      \<lparr> pair_rsq = FNum 0, pair_x = FNum (1 / 2), pair_y = FNum (3 / 2),
        pair_T = FNum (3 / 2) \<rparr> [0, 0, 0, 0, 0, 0, 0, 0] = Inr [0, 0, 0, 0, 0, 0, 0, 0] \<and>
   \<not> bin_index (fdiv (FNum 1) (FNum 1)) (FNum (5 / 2)) < (2 :: uint) \<and>
   bin_pair (Index3D 2 2 2)
      \<lparr> m_max_x = FNum 1, m_max_y = FNum 1, m_max_T = FNum 1,
        m_nbins_x = 2, m_nbins_y = 2, m_nbins_T = 2,
        m_dx = FNum 1, m_dy = FNum 1, m_dT = FNum 1,
        m_pcf_array = replicate 8 0, m_local_pcf_array = [] \<rparr>
      \<lparr> pair_rsq = FNum 1, pair_x = FNum (5 / 2), pair_y = FNum (3 / 2),
        pair_T = FNum (3 / 2) \<rparr> [0, 0, 0, 0, 0, 0, 0, 0] = Inr [0, 0, 0, 0, 0, 0, 0, 0] \<and>
   unat (2 :: uint) * unat (2 :: uint) * unat (2 :: uint) < 2 ^ 32 \<and>
   new_zeroed 2 2 2 = Inr (replicate 8 0)"
proof -
  let ?p = "\<lparr> m_max_x = FNum 1, m_max_y = FNum 1, m_max_T = FNum 1,
        m_nbins_x = 2, m_nbins_y = 2, m_nbins_T = 2,
        m_dx = FNum 1, m_dy = FNum 1, m_dT = FNum 1,
        m_pcf_array = replicate 8 0, m_local_pcf_array = [] \<rparr>"
  let ?pr = "\<lparr> pair_rsq = FNum 1, pair_x = FNum (1 / 2), pair_y = FNum (3 / 2),
        pair_T = FNum (3 / 2) \<rparr>"
  let ?skip = "\<lparr> pair_rsq = FNum 0, pair_x = FNum (1 / 2), pair_y = FNum (3 / 2),
        pair_T = FNum (3 / 2) \<rparr>"
  let ?out = "\<lparr> pair_rsq = FNum 1, pair_x = FNum (5 / 2), pair_y = FNum (3 / 2),
        pair_T = FNum (3 / 2) \<rparr>"
  let ?h = "[0, 0, 0, 0, 0, 0, 0, 0] :: uint list"
  have nowrap: "unat (m_nbins_x ?p) * unat (m_nbins_y ?p) * unat (m_nbins_T ?p) < 2 ^ 32"
    by simp
  have len: "length ?h = 8"
    by simp
  have small: "flt (FNum 0) (FNum (1 / 10 ^ 6))"
    by simp
  have far: "\<not> bin_index (fdiv (FNum 1) (FNum 1)) (FNum (5 / 2)) < (2 :: uint)"
    by (simp add: bin_index_def cvtt_ss2si_def)
  have run: "bin_pair (Index3D 2 2 2) ?p ?pr ?h = Inr [0, 0, 0, 0, 0, 0, 1, 0]"
    by (simp add: bin_pair_def bin_index_def cvtt_ss2si_def Index3D_def increment_bin_def
        Let_def)
  note inst = bin_pair_in_bounds [of "Index3D 2 2 2" ?p ?h]
  from nowrap inst [of ?pr]
  have alloc: "new_zeroed 2 2 2 = Inr (replicate 8 0)"
    and "indexer_fits (Index3D 2 2 2) ?p 8"
    by simp_all
  then have fits: "indexer_fits (Index3D 2 2 2) ?p (length ?h)"
    by (simp only: len)
  with inst [of ?pr]
  have one: "\<exists>hist'. bin_pair (Index3D 2 2 2) ?p ?pr ?h = Inr hist' \<and>
      (hist' = ?h \<or> (\<exists>n<length ?h. hist' = ?h[n := ?h ! n + 1]))"
    by blast
  from small inst [of ?skip]
  have skip: "bin_pair (Index3D 2 2 2) ?p ?skip ?h = Inr ?h"
    by simp
  from far inst [of ?out]
  have out: "bin_pair (Index3D 2 2 2) ?p ?out ?h = Inr ?h"
    by simp
  from fits one run small skip far out nowrap alloc show ?thesis
    by simp
qed

section \<open>The reduction of the thread-local histograms\<close>

lemma add_bin_untouched:
  "add_bin n local_bins pcf = Inr pcf' \<Longrightarrow> q \<noteq> n \<Longrightarrow> pcf' ! q = pcf ! q"
  by (auto simp: add_bin_def split: if_splits)

lemma combine_locals_untouched:
  "combine_locals n locals pcf = Inr pcf' \<Longrightarrow> q \<noteq> n \<Longrightarrow> pcf' ! q = pcf ! q"
proof (induction locals arbitrary: pcf)
  case Nil
  then show ?case by simp
next
  case (Cons local_bins locals)
  from Cons.prems(1) obtain mid where mid: "add_bin n local_bins pcf = Inr mid"
    and rest: "combine_locals n locals mid = Inr pcf'"
    by (auto split: sum.splits)
  from Cons.IH [OF rest Cons.prems(2)] add_bin_untouched [OF mid Cons.prems(2)]
  show ?case by simp
qed

lemma for_each_untouched:
  assumes "\<And>i a a'. i \<in> set is \<Longrightarrow> body i a = Inr a' \<Longrightarrow> a' ! q = a ! q"
  shows "for_each is body a = Inr a' \<Longrightarrow> a' ! q = a ! q"
  using assms
proof (induction "is" arbitrary: a)
  case Nil
  then show ?case by simp
next
  case (Cons i "is")
  from Cons.prems(1) obtain mid where mid: "body i a = Inr mid"
    and rest: "for_each is body mid = Inr a'"
    by (auto split: sum.splits)
  have "a' ! q = mid ! q"
    using rest Cons.prems(2) by (intro Cons.IH) auto
  moreover have "mid ! q = a ! q"
    using mid Cons.prems(2) by auto
  ultimately show ?case by simp
qed

text \<open>
  Whatever the indexer: a position that is not that of a triple \<open>(i, j, k)\<close> with
  \<open>k < m_nbins_y\<close> keeps the value it had before the combination.
\<close>

lemma CombinePCFXYTM2D_untouched:
  assumes run: "CombinePCFXYTM2D b_i nbins_x nbins_y nbins_T locals rbegin rend pcf = Inr pcf'"
    and other: "\<And>i j k. i < rend \<Longrightarrow> j < unat nbins_y \<Longrightarrow> k < unat nbins_y \<Longrightarrow>
                 unat (b_i (of_nat i) (of_nat j) (of_nat k)) \<noteq> q"
  shows "pcf' ! q = pcf ! q"
proof -
  have inner: "a' ! q = a ! q"
    if "i < rend" and "j < unat nbins_y" and "for_each [0 ..< unat nbins_y]
          (\<lambda>k. combine_locals (unat (b_i (of_nat i) (of_nat j) (of_nat k))) locals) a = Inr a'"
    for i j a a'
    using that(3)
  proof (rule for_each_untouched [rotated])
    fix k b b'
    assume "k \<in> set [0 ..< unat nbins_y]"
      and "combine_locals (unat (b_i (of_nat i) (of_nat j) (of_nat k))) locals b = Inr b'"
    then show "b' ! q = b ! q"
      using other [OF that(1) that(2), of k] by (intro combine_locals_untouched) auto
  qed
  have middle: "a' ! q = a ! q"
    if "i < rend" and "for_each [0 ..< unat nbins_y]
          (\<lambda>j. for_each [0 ..< unat nbins_y]
             (\<lambda>k. combine_locals (unat (b_i (of_nat i) (of_nat j) (of_nat k))) locals)) a = Inr a'"
    for i a a'
    using that(2)
  proof (rule for_each_untouched [rotated])
    fix j b b'
    assume "j \<in> set [0 ..< unat nbins_y]"
      and "for_each [0 ..< unat nbins_y]
             (\<lambda>k. combine_locals (unat (b_i (of_nat i) (of_nat j) (of_nat k))) locals) b = Inr b'"
    then show "b' ! q = b ! q"
      using inner [OF that(1)] by auto
  qed
  show ?thesis
    using run unfolding CombinePCFXYTM2D_def
  proof (rule for_each_untouched [rotated])
    fix i b b'
    assume "i \<in> set [rbegin ..< rend]"
      and "for_each [0 ..< unat nbins_y]
          (\<lambda>j. for_each [0 ..< unat nbins_y]
             (\<lambda>k. combine_locals (unat (b_i (of_nat i) (of_nat j) (of_nat k))) locals)) b = Inr b'"
    then show "b' ! q = b ! q"
      using middle by auto
  qed
qed

lemma add_bin_adds:
  "add_bin n local_bins pcf = Inr pcf' \<Longrightarrow>
   pcf' ! q = pcf ! q + (if q = n then local_bins ! n else 0)"
  by (auto simp: add_bin_def split: if_splits)

lemma combine_locals_adds:
  "combine_locals n locals pcf = Inr pcf' \<Longrightarrow>
   pcf' ! q = pcf ! q + (if q = n then \<Sum>local_bins\<leftarrow>locals. local_bins ! n else 0)"
proof (induction locals arbitrary: pcf)
  case Nil
  then show ?case by simp
next
  case (Cons local_bins locals)
  from Cons.prems obtain mid where mid: "add_bin n local_bins pcf = Inr mid"
    and rest: "combine_locals n locals mid = Inr pcf'"
    by (auto split: sum.splits)
  from Cons.IH [OF rest] add_bin_adds [OF mid, of q]
  show ?case by simp
qed

lemma for_each_adds:
  fixes d :: "nat \<Rightarrow> uint"
  assumes step: "\<And>i a a' q. i \<in> set is \<Longrightarrow> body i a = Inr a' \<Longrightarrow>
                   a' ! q = a ! q + (if q \<in> P i then d q else 0)"
    and disj: "\<And>i i'. i \<in> set is \<Longrightarrow> i' \<in> set is \<Longrightarrow> i \<noteq> i' \<Longrightarrow> P i \<inter> P i' = {}"
    and dist: "distinct is"
  shows "for_each is body a = Inr a' \<Longrightarrow>
         a' ! q = a ! q + (if q \<in> (\<Union>i\<in>set is. P i) then d q else 0)"
  using assms
proof (induction "is" arbitrary: a)
  case Nil
  then show ?case by simp
next
  case (Cons i "is")
  from Cons.prems(1) obtain mid where mid: "body i a = Inr mid"
    and rest: "for_each is body mid = Inr a'"
    by (auto split: sum.splits)
  have first: "mid ! q = a ! q + (if q \<in> P i then d q else 0)"
    using mid Cons.prems(2) [of i a mid q] by simp
  have later: "a' ! q = mid ! q + (if q \<in> (\<Union>i\<in>set is. P i) then d q else 0)"
  proof (rule Cons.IH [OF rest])
    fix i' b b' q'
    assume "i' \<in> set is" and "body i' b = Inr b'"
    then show "b' ! q' = b ! q' + (if q' \<in> P i' then d q' else 0)"
      using Cons.prems(2) [of i' b b' q'] by simp
  next
    fix i' i''
    assume "i' \<in> set is" and "i'' \<in> set is" and "i' \<noteq> i''"
    then show "P i' \<inter> P i'' = {}"
      using Cons.prems(3) [of i' i''] by simp
  next
    show "distinct is" using Cons.prems(4) by simp
  qed
  have apart: "\<not> (q \<in> P i \<and> q \<in> (\<Union>i\<in>set is. P i))"
  proof
    assume both: "q \<in> P i \<and> q \<in> (\<Union>i\<in>set is. P i)"
    then obtain i' where i': "i' \<in> set is" and q: "q \<in> P i'" by auto
    with Cons.prems(4) have "i \<noteq> i'" by auto
    with i' have "P i \<inter> P i' = {}"
      using Cons.prems(3) [of i i'] by simp
    with both q show False by auto
  qed
  from first later apart show ?case by auto
qed


text \<open>
  With an indexer that tells the triples apart, the combination adds to the position of
  every triple \<open>(i, j, k)\<close> with \<open>i\<close> in the range and \<open>j, k < m_nbins_y\<close> the sum of the
  thread-local counts at that position, and to no other position.  When \<open>m_nbins_T\<close>
  equals \<open>m_nbins_y\<close> these are all the bins.
\<close>

lemma CombinePCFXYTM2D_adds:
  assumes run: "CombinePCFXYTM2D b_i nbins_x nbins_y nbins_T locals rbegin rend pcf = Inr pcf'"
    and inj: "\<And>i j k i' j' k'. i < rend \<Longrightarrow> i' < rend \<Longrightarrow> j < unat nbins_y \<Longrightarrow>
        j' < unat nbins_y \<Longrightarrow> k < unat nbins_y \<Longrightarrow> k' < unat nbins_y \<Longrightarrow>
        unat (b_i (of_nat i) (of_nat j) (of_nat k)) =
          unat (b_i (of_nat i') (of_nat j') (of_nat k')) \<Longrightarrow>
        i = i' \<and> j = j' \<and> k = k'"
  shows "pcf' ! q = pcf ! q +
           (if q \<in> (\<Union>i\<in>set [rbegin ..< rend]. \<Union>j\<in>set [0 ..< unat nbins_y].
                      \<Union>k\<in>set [0 ..< unat nbins_y].
                        {unat (b_i (of_nat i) (of_nat j) (of_nat k))})
            then \<Sum>local_bins\<leftarrow>locals. local_bins ! q else 0)"
proof -
  let ?pos = "\<lambda>i j k. unat (b_i (of_nat i) (of_nat j) (of_nat k))"
  let ?d = "\<lambda>q. \<Sum>local_bins\<leftarrow>locals. local_bins ! q"
  let ?ys = "[0 ..< unat nbins_y]"
  have inner: "a' ! q = a ! q + (if q \<in> (\<Union>k\<in>set ?ys. {?pos i j k}) then ?d q else 0)"
    if i: "i < rend" and j: "j < unat nbins_y"
      and run: "for_each ?ys (\<lambda>k. combine_locals (?pos i j k) locals) a = Inr a'"
    for i j a a' q
    using run
  proof (rule for_each_adds [rotated 3])
    fix k b b' q'
    assume "combine_locals (?pos i j k) locals b = Inr b'"
    from combine_locals_adds [OF this, of q']
    show "b' ! q' = b ! q' + (if q' \<in> {?pos i j k} then ?d q' else 0)"
      by simp
  next
    fix k k'
    assume "k \<in> set ?ys" and "k' \<in> set ?ys" and "k \<noteq> k'"
    then show "{?pos i j k} \<inter> {?pos i j k'} = {}"
      using inj [OF i i j j, of k k'] by auto
  next
    show "distinct ?ys" by simp
  qed
  have middle: "a' ! q = a ! q +
        (if q \<in> (\<Union>j\<in>set ?ys. \<Union>k\<in>set ?ys. {?pos i j k}) then ?d q else 0)"
    if i: "i < rend"
      and run: "for_each ?ys
          (\<lambda>j. for_each ?ys (\<lambda>k. combine_locals (?pos i j k) locals)) a = Inr a'"
    for i a a' q
    using run
  proof (rule for_each_adds [rotated 3])
    fix j b b' q'
    assume "j \<in> set ?ys"
      and "for_each ?ys (\<lambda>k. combine_locals (?pos i j k) locals) b = Inr b'"
    then show "b' ! q' = b ! q' + (if q' \<in> (\<Union>k\<in>set ?ys. {?pos i j k}) then ?d q' else 0)"
      using inner [OF i] by simp
  next
    fix j j'
    assume "j \<in> set ?ys" and "j' \<in> set ?ys" and "j \<noteq> j'"
    then show "(\<Union>k\<in>set ?ys. {?pos i j k}) \<inter> (\<Union>k\<in>set ?ys. {?pos i j' k}) = {}"
      using inj [OF i i, of j j'] by fastforce
  next
    show "distinct ?ys" by simp
  qed
  show ?thesis
    using run unfolding CombinePCFXYTM2D_def
  proof (rule for_each_adds [rotated 3])
    fix i b b' q'
    assume "i \<in> set [rbegin ..< rend]"
      and "for_each ?ys
          (\<lambda>j. for_each ?ys (\<lambda>k. combine_locals (?pos i j k) locals)) b = Inr b'"
    then show "b' ! q' = b ! q' +
        (if q' \<in> (\<Union>j\<in>set ?ys. \<Union>k\<in>set ?ys. {?pos i j k}) then ?d q' else 0)"
      using middle by simp
  next
    fix i i'
    assume "i \<in> set [rbegin ..< rend]" and "i' \<in> set [rbegin ..< rend]" and "i \<noteq> i'"
    then show "(\<Union>j\<in>set ?ys. \<Union>k\<in>set ?ys. {?pos i j k}) \<inter>
               (\<Union>j\<in>set ?ys. \<Union>k\<in>set ?ys. {?pos i' j k}) = {}"
      using inj [of i i'] by fastforce
  next
    show "distinct [rbegin ..< rend]" by simp
  qed
qed

lemma upt_0_2: "[0 ..< 2] = [0, 1]"
  by (simp add: upt_conv_Cons)

lemma replicate_12: "replicate 12 (0 :: uint) = [0, 0, 0, 0, 0, 0, 0, 0, 0, 0, 0, 0]"
  by (simp add: numeral_eq_Suc)

lemma replicate_4: "replicate 4 (0 :: uint) = [0, 0, 0, 0]"
  by (simp add: numeral_eq_Suc)

lemma combine_2_2_3:
  "CombinePCFXYTM2D (Index3D 2 2 3) 2 2 3 [[1, 1, 1, 1, 1, 1, 1, 1, 1, 1, 1, 1]] 0 2
     [0, 0, 0, 0, 0, 0, 0, 0, 0, 0, 0, 0] = Inr [1, 1, 1, 1, 1, 1, 1, 1, 0, 0, 0, 0]"
  by (simp add: CombinePCFXYTM2D_def Index3D_def add_bin_def upt_0_2)

lemma combine_2_2_1:
  "CombinePCFXYTM2D (Index3D 2 2 1) 2 2 1 [[1, 1, 1, 1]] 0 2 [0, 0, 0, 0] = Inl out_of_bounds"
  by (simp add: CombinePCFXYTM2D_def Index3D_def add_bin_def upt_0_2)

text \<open>
  Claim C8 says that \<open>reducePCF()\<close> makes every bin of the canonical histogram the sum of
  that bin over the thread-local histograms.  The loop over the third index runs up to
  \<open>m_nbins_y\<close> and not \<open>m_nbins_T\<close>.  With 2, 2 and 3 bins and one thread whose twelve bins
  all hold 1, the four bins with third index 2 (the positions 8 to 11) are left at 0.
  With 2, 2 and 1 bins the loop goes on to the third index 1 and reads past the end of
  the four-entry histograms.
\<close>

theorem reducePCF_skips_bins:
  "reducePCF (Index3D 2 2 3)
     \<lparr> m_max_x = FNum 1, m_max_y = FNum 1, m_max_T = FNum 1,
       m_nbins_x = 2, m_nbins_y = 2, m_nbins_T = 3,
       m_dx = FNum 1, m_dy = FNum 1, m_dT = FNum (2 / 3),
       m_pcf_array = [0, 0, 0, 0, 0, 0, 0, 0, 0, 0, 0, 0],
       m_local_pcf_array = [[1, 1, 1, 1, 1, 1, 1, 1, 1, 1, 1, 1]] \<rparr> =
   Inr \<lparr> m_max_x = FNum 1, m_max_y = FNum 1, m_max_T = FNum 1,
       m_nbins_x = 2, m_nbins_y = 2, m_nbins_T = 3,
       m_dx = FNum 1, m_dy = FNum 1, m_dT = FNum (2 / 3),
       m_pcf_array = [1, 1, 1, 1, 1, 1, 1, 1, 0, 0, 0, 0],
       m_local_pcf_array = [[1, 1, 1, 1, 1, 1, 1, 1, 1, 1, 1, 1]] \<rparr> \<and>
   unat (Index3D 2 2 3 0 0 2) = 8 \<and>
   ([1, 1, 1, 1, 1, 1, 1, 1, 1, 1, 1, 1] :: uint list) ! 8 = 1 \<and>
   ([1, 1, 1, 1, 1, 1, 1, 1, 0, 0, 0, 0] :: uint list) ! 8 = 0 \<and>
   reducePCF (Index3D 2 2 1)
     \<lparr> m_max_x = FNum 1, m_max_y = FNum 1, m_max_T = FNum 1,
       m_nbins_x = 2, m_nbins_y = 2, m_nbins_T = 1,
       m_dx = FNum 1, m_dy = FNum 1, m_dT = FNum 2,
       m_pcf_array = [0, 0, 0, 0],
       m_local_pcf_array = [[1, 1, 1, 1]] \<rparr> =
   Inl out_of_bounds"
  by (simp add: reducePCF_def memset_zero_def size_t_bytes_def replicate_12 replicate_4
      combine_2_2_3 combine_2_2_1 Index3D_def)

end
